theory Spec2Isabelle
  imports Main "HOL-Library.Sublist" "HOL-Library.Char_ord" "HOL-Library.List_Lexorder"
    "HOL-Library.Multiset"
begin

section \<open>Strings\<close>

text \<open>
  A JavaScript string is modelled as a \<^typ>\<open>string\<close>: one \<^typ>\<open>char\<close> stands for one
  UTF-16 code unit below 256. The functions of the standard library the helpers call are
  written out here with their ECMAScript meaning.
\<close>

text \<open>
  \<^verbatim>\<open>s.replace(pat, rep)\<close> with a string pattern: only the first occurrence of
  \<^verbatim>\<open>pat\<close> is replaced; a string without the pattern is returned as it is. (The
  replacement strings of this program hold no \<^verbatim>\<open>$\<close>, so no replacement pattern
  is expanded.)
\<close>

fun js_replace :: "string \<Rightarrow> string \<Rightarrow> string \<Rightarrow> string" where
  "js_replace pat rep [] = (if pat = [] then rep else [])"
| "js_replace pat rep (c # cs) =
     (if prefix pat (c # cs) then rep @ drop (length pat) (c # cs)
      else c # js_replace pat rep cs)"

text \<open>\<^verbatim>\<open>s.startsWith(p)\<close> is \<^const>\<open>prefix\<close>.\<close>

definition startsWith :: "string \<Rightarrow> string \<Rightarrow> bool" where
  "startsWith s p = prefix p s"

text \<open>
  White space as \<^verbatim>\<open>trim()\<close> and the regular expression class \<^verbatim>\<open>\s\<close> read
  it, among the code units below 256: tab, line feed, vertical tab, form feed, carriage
  return, space and the no-break space.
\<close>

definition is_space :: "char \<Rightarrow> bool" where
  "is_space c = (c \<in> set [CHR 0x09, CHR 0x0A, CHR 0x0B, CHR 0x0C, CHR 0x0D, CHR 0x20, CHR 0xA0])"

definition trim :: "string \<Rightarrow> string" where
  "trim s = rev (dropWhile is_space (rev (dropWhile is_space s)))"

text \<open>\<^verbatim>\<open>s.split(sep)\<close> for a separator of one character: never an empty array.\<close>

fun split_on :: "char \<Rightarrow> string \<Rightarrow> string list" where
  "split_on sep [] = [[]]"
| "split_on sep (c # cs) =
     (if c = sep then [] # split_on sep cs
      else (case split_on sep cs of
              [] \<Rightarrow> [[c]]
            | seg # segs \<Rightarrow> (c # seg) # segs))"

text \<open>A number in a template literal: its decimal digits.\<close>

definition digit_char :: "nat \<Rightarrow> char" where
  "digit_char n = ''0123456789'' ! n"

fun string_of_nat :: "nat \<Rightarrow> string" where
  "string_of_nat n =
     (if n < 10 then [digit_char n] else string_of_nat (n div 10) @ [digit_char (n mod 10)])"

declare string_of_nat.simps [simp del]

section \<open>Command derivation\<close>

datatype PackageManager = Pnpm | Npm | Yarn | Bun

text \<open>
  \<^verbatim>\<open>RUNTIME_REPLACEMENTS\<close> has the keys pnpm, yarn and bun; reading the key npm gives
  \<^verbatim>\<open>undefined\<close>.
\<close>

fun RUNTIME_REPLACEMENTS :: "PackageManager \<Rightarrow> string option" where
  "RUNTIME_REPLACEMENTS Pnpm = Some ''pnpm dlx''"
| "RUNTIME_REPLACEMENTS Yarn = Some ''yarn dlx''"
| "RUNTIME_REPLACEMENTS Bun = Some ''bunx''"
| "RUNTIME_REPLACEMENTS Npm = None"

definition getCliCommand :: "string \<Rightarrow> PackageManager option \<Rightarrow> string" where
  "getCliCommand cliCommand runtime =
     (case runtime of
        None \<Rightarrow> cliCommand
      | Some r \<Rightarrow>
          if r = Npm then cliCommand
          else js_replace ''npx''
                 (case RUNTIME_REPLACEMENTS r of Some rep \<Rightarrow> rep | None \<Rightarrow> ''undefined'')
                 cliCommand)"

section \<open>Resources\<close>

record CommandSet =
  npm :: string
  pnpm :: string
  yarn :: string
  bun :: string

text \<open>
  \<^verbatim>\<open>ComponentDocResource\<close>: every field but the name is optional (\<^verbatim>\<open>undefined\<close> is
  \<^const>\<open>None\<close>).
\<close>

record ComponentDocResource =
  name :: string
  description :: "string option"
  doc :: "string option"
  commands :: "CommandSet list option"
  links :: "string list option"
  isBlock :: "bool option"

text \<open>
  The scrape result \<^verbatim>\<open>Block\<close> (fields name, command, doc and the optional
  description of the source; the prefix keeps them apart from the resource's fields).
\<close>

record Block =
  block_name :: string
  block_command :: string
  block_doc :: string
  block_description :: "string option"

section \<open>The world: network, timer, cache, console\<close>

text \<open>A thrown \<^verbatim>\<open>Error\<close>, with its message.\<close>

datatype error = Error string

fun message :: "error \<Rightarrow> string" where
  "message (Error m) = m"

text \<open>
  A \<^verbatim>\<open>Response\<close>: the fields the program reads, and what \<^verbatim>\<open>response.text()\<close>
  settles to (it may reject).
\<close>

record response =
  ok :: bool
  status :: nat
  statusText :: string
  body :: "error + string"

datatype fetch_outcome = Rejected error | Resolved response

text \<open>
  The effects of the program are threaded through a \<^verbatim>\<open>world\<close>:
  \<^item> \<^verbatim>\<open>network u k\<close> is what the \<open>k\<close>-th \<^verbatim>\<open>fetch\<close> of the URL \<open>u\<close> settles to
    (counted from 0), chosen by the remote hosts;
  \<^item> \<^verbatim>\<open>fetched\<close> logs every call of \<^verbatim>\<open>fetch\<close>, in order;
  \<^item> \<^verbatim>\<open>slept\<close> logs every delay awaited through \<^verbatim>\<open>setTimeout\<close>, in order;
  \<^item> \<^verbatim>\<open>resourceCache\<close> is the module-level \<^verbatim>\<open>Map\<close> of that name;
  \<^item> \<^verbatim>\<open>console\<close> logs the lines written with \<^verbatim>\<open>console.error\<close>.
\<close>

record world =
  network :: "string \<Rightarrow> nat \<Rightarrow> fetch_outcome"
  fetched :: "string list"
  slept :: "int list"
  resourceCache :: "string \<rightharpoonup> ComponentDocResource"
  console :: "string list"

definition fetch :: "string \<Rightarrow> world \<Rightarrow> fetch_outcome \<times> world" where
  "fetch url w = (network w url (count_list (fetched w) url), w\<lparr>fetched := fetched w @ [url]\<rparr>)"

definition setTimeout :: "int \<Rightarrow> world \<Rightarrow> world" where
  "setTimeout delay w = w\<lparr>slept := slept w @ [delay]\<rparr>"

definition console_error :: "string \<Rightarrow> world \<Rightarrow> world" where
  "console_error line w = w\<lparr>console := console w @ [line]\<rparr>"

section \<open>The fetcher\<close>

definition RETRY_ATTEMPTS :: int where
  "RETRY_ATTEMPTS = 3"

definition RETRY_DELAY_MS :: int where
  "RETRY_DELAY_MS = 500"

definition BASE_URL :: string where
  "BASE_URL = ''https://ui.shadcn.com''"

definition RAW_GITHUB_URL :: string where
  "RAW_GITHUB_URL = ''https://raw.githubusercontent.com/shadcn-ui/ui/refs/heads/main/apps''"

definition BLOCK_PAGES :: "string list" where
  "BLOCK_PAGES = [BASE_URL @ ''/blocks/sidebar'', BASE_URL @ ''/blocks/authentication'']"

text \<open>
  The \<^verbatim>\<open>try\<close> block of \<^verbatim>\<open>fetchWithRetry\<close>, given what the fetch settled to: a
  rejection is thrown on, a response that is not ok is thrown as an HTTP error, an ok
  response is returned.
\<close>

definition attempt :: "fetch_outcome \<Rightarrow> error + response" where
  "attempt outcome =
     (case outcome of
        Rejected e \<Rightarrow> Inl e
      | Resolved r \<Rightarrow>
          if \<not> ok r
          then Inl (Error (''HTTP error '' @ string_of_nat (status r) @ '': '' @ statusText r))
          else Inr r)"

function fetchWithRetry :: "string \<Rightarrow> int \<Rightarrow> int \<Rightarrow> world \<Rightarrow> (error + response) \<times> world" where
  "fetchWithRetry url retries delay w =
     (case fetch url w of
        (outcome, w1) \<Rightarrow>
          (case attempt outcome of
             Inr r \<Rightarrow> (Inr r, w1)
           | Inl e \<Rightarrow>
               if retries \<le> 1 then (Inl e, w1)
               else fetchWithRetry url (retries - 1) (delay * 2) (setTimeout delay w1)))"
  by pat_completeness auto
termination
  by (relation "measure (\<lambda>(url, retries, delay, w). nat retries)") auto

declare fetchWithRetry.simps [simp del]

section \<open>Regular expressions\<close>

text \<open>
  The regular expressions of the program are kept as data and run by a backtracking
  matcher with the priorities of ECMAScript: a greedy quantifier tries the longest
  repetition first, a lazy one the shortest, an alternation its left branch first, and a
  search tries the start positions from left to right. Every quantifier of the source
  stands on a single character class, and there is at most one capture group.
\<close>

datatype cset =
    Lit char
  | OneOf string
  | NoneOf string
  | Space
  | Word
  | AnyChar

definition is_word :: "char \<Rightarrow> bool" where
  "is_word c =
     ((CHR ''a'' \<le> c \<and> c \<le> CHR ''z'') \<or> (CHR ''A'' \<le> c \<and> c \<le> CHR ''Z'')
      \<or> (CHR ''0'' \<le> c \<and> c \<le> CHR ''9'') \<or> c = CHR ''_'')"

fun in_cset :: "cset \<Rightarrow> char \<Rightarrow> bool" where
  "in_cset (Lit a) c = (c = a)"
| "in_cset (OneOf as) c = (c \<in> set as)"
| "in_cset (NoneOf as) c = (c \<notin> set as)"
| "in_cset Space c = is_space c"
| "in_cset Word c = is_word c"
| "in_cset AnyChar c = True"

text \<open>One alternative of a lookahead: a run of single characters, or the end of input.\<close>

datatype ahead = Ahead "cset list" | AheadEnd

fun ahead_chars :: "cset list \<Rightarrow> string \<Rightarrow> bool" where
  "ahead_chars [] s = True"
| "ahead_chars (cs # css) [] = False"
| "ahead_chars (cs # css) (c # s) = (in_cset cs c \<and> ahead_chars css s)"

fun looks_ahead :: "ahead \<Rightarrow> string \<Rightarrow> bool" where
  "looks_ahead (Ahead css) s = ahead_chars css s"
| "looks_ahead AheadEnd s = (s = [])"

datatype item =
    One cset
  | Star cset
  | Plus cset
  | LazyStar cset
  | GroupOpen
  | GroupClose
  | InputStart
  | Lookahead "ahead list"

type_synonym regex = "item list list"

definition lit :: "string \<Rightarrow> item list" where
  "lit s = map (\<lambda>c. One (Lit c)) s"

text \<open>
  The state of capture group 1 while matching: not entered, entered with the input that
  was left at its opening parenthesis, or closed with its text.
\<close>

datatype capture = NotOpened | Opened string | Captured string

text \<open>
  \<open>match_items items at_start s cap\<close> matches the items against a prefix of the input
  \<open>s\<close>; \<open>at_start\<close> says whether \<open>s\<close> is the whole input. It returns the capture
  and the input left after the match.
\<close>

fun match_items :: "item list \<Rightarrow> bool \<Rightarrow> string \<Rightarrow> capture \<Rightarrow> (capture \<times> string) option" where
  "match_items [] st s cap = Some (cap, s)"
| "match_items (One cs # items) st [] cap = None"
| "match_items (One cs # items) st (c # s) cap =
     (if in_cset cs c then match_items items False s cap else None)"
| "match_items (Star cs # items) st [] cap = match_items items st [] cap"
| "match_items (Star cs # items) st (c # s) cap =
     (if in_cset cs c
      then (case match_items (Star cs # items) False s cap of
              Some r \<Rightarrow> Some r
            | None \<Rightarrow> match_items items st (c # s) cap)
      else match_items items st (c # s) cap)"
| "match_items (Plus cs # items) st [] cap = None"
| "match_items (Plus cs # items) st (c # s) cap =
     (if in_cset cs c then match_items (Star cs # items) False s cap else None)"
| "match_items (LazyStar cs # items) st [] cap = match_items items st [] cap"
| "match_items (LazyStar cs # items) st (c # s) cap =
     (case match_items items st (c # s) cap of
        Some r \<Rightarrow> Some r
      | None \<Rightarrow> if in_cset cs c then match_items (LazyStar cs # items) False s cap else None)"
| "match_items (GroupOpen # items) st s cap = match_items items st s (Opened s)"
| "match_items (GroupClose # items) st s cap =
     match_items items st s
       (case cap of Opened s0 \<Rightarrow> Captured (take (length s0 - length s) s0) | _ \<Rightarrow> cap)"
| "match_items (InputStart # items) st s cap =
     (if st then match_items items st s cap else None)"
| "match_items (Lookahead alts # items) st s cap =
     (if list_ex (\<lambda>a. looks_ahead a s) alts then match_items items st s cap else None)"

fun match_alts :: "regex \<Rightarrow> bool \<Rightarrow> string \<Rightarrow> (capture \<times> string) option" where
  "match_alts [] st s = None"
| "match_alts (alt # alts) st s =
     (case match_items alt st s NotOpened of
        Some r \<Rightarrow> Some r
      | None \<Rightarrow> match_alts alts st s)"

text \<open>
  A match is the pair of \<^verbatim>\<open>m[0]\<close>, the matched text, and \<^verbatim>\<open>m[1]\<close>, the text of
  the group (\<^verbatim>\<open>undefined\<close> when the expression has none).
\<close>

type_synonym rmatch = "string \<times> string option"

definition match_here :: "regex \<Rightarrow> bool \<Rightarrow> string \<Rightarrow> rmatch option" where
  "match_here r st s =
     (case match_alts r st s of
        None \<Rightarrow> None
      | Some (cap, rest) \<Rightarrow>
          Some (take (length s - length rest) s,
                case cap of Captured g \<Rightarrow> Some g | _ \<Rightarrow> None))"

fun search :: "regex \<Rightarrow> bool \<Rightarrow> string \<Rightarrow> rmatch option" where
  "search r st [] = match_here r st []"
| "search r st (c # s) =
     (case match_here r st (c # s) of
        Some m \<Rightarrow> Some m
      | None \<Rightarrow> search r False s)"

text \<open>\<^verbatim>\<open>s.match(r)\<close> for an expression without the \<^verbatim>\<open>g\<close> flag: the leftmost match.\<close>

definition js_match :: "string \<Rightarrow> regex \<Rightarrow> rmatch option" where
  "js_match s r = search r True s"

text \<open>
  \<^verbatim>\<open>s.replace(r, '')\<close> for an expression with the \<^verbatim>\<open>g\<close> flag: every match, from
  left to right and without overlap, is cut out. After an empty match the scan moves on
  by one character.
\<close>

function remove_all :: "regex \<Rightarrow> bool \<Rightarrow> string \<Rightarrow> string" where
  "remove_all r st [] = []"
| "remove_all r st (c # s) =
     (case match_here r st (c # s) of
        None \<Rightarrow> c # remove_all r False s
      | Some (whole, g) \<Rightarrow>
          if whole = [] then c # remove_all r False s
          else remove_all r False (drop (length whole) (c # s)))"
  by pat_completeness auto
termination
  by (relation "measure (\<lambda>(r, st, s). length s)") (auto simp: neq_Nil_conv)

definition js_remove_all :: "string \<Rightarrow> regex \<Rightarrow> string" where
  "js_remove_all s r = remove_all r True s"

text \<open>
  Whether the group has taken part when the items have matched, read off the items alone:
  \<open>group_is_set items opened closed\<close>, from a state in which the group is open
  (\<open>opened\<close>) or already closed (\<open>closed\<close>).
\<close>

fun is_opened :: "capture \<Rightarrow> bool" where
  "is_opened (Opened s) = True"
| "is_opened c = False"

fun is_captured :: "capture \<Rightarrow> bool" where
  "is_captured (Captured s) = True"
| "is_captured c = False"

fun group_is_set :: "item list \<Rightarrow> bool \<Rightarrow> bool \<Rightarrow> bool" where
  "group_is_set [] opened closed = closed"
| "group_is_set (GroupOpen # items) opened closed = group_is_set items True False"
| "group_is_set (GroupClose # items) opened closed = group_is_set items False (opened \<or> closed)"
| "group_is_set (One cs # items) opened closed = group_is_set items opened closed"
| "group_is_set (Star cs # items) opened closed = group_is_set items opened closed"
| "group_is_set (Plus cs # items) opened closed = group_is_set items opened closed"
| "group_is_set (LazyStar cs # items) opened closed = group_is_set items opened closed"
| "group_is_set (InputStart # items) opened closed = group_is_set items opened closed"
| "group_is_set (Lookahead alts # items) opened closed = group_is_set items opened closed"

section \<open>The document parser\<close>

abbreviation dquote :: char where
  "dquote \<equiv> CHR 0x22"

abbreviation squote :: char where
  "squote \<equiv> CHR 0x27"

abbreviation backtick :: char where
  "backtick \<equiv> CHR 0x60"

abbreviation fence :: string where
  "fence \<equiv> [backtick, backtick, backtick]"

text \<open>\<^verbatim>\<open>/^---\n([\s\S]*?)\n---/\<close>\<close>

definition FRONTMATTER_REGEX :: regex where
  "FRONTMATTER_REGEX =
     [[InputStart] @ lit ''---\<newline>'' @ [GroupOpen, LazyStar AnyChar, GroupClose]
        @ lit ''\<newline>---'']"

text \<open>
  \<^verbatim>\<open>/description:\s*["']([^"']+)["']/\<close>, \<^verbatim>\<open>/description:\s*([^\n]+)/\<close> and
  \<^verbatim>\<open>/description\s*:\s*["']([^"']+)["']/\<close>, in this order.
\<close>

definition DESCRIPTION_PATTERNS :: "regex list" where
  "DESCRIPTION_PATTERNS =
     [[lit ''description:'' @
         [Star Space, One (OneOf [dquote, squote]), GroupOpen, Plus (NoneOf [dquote, squote]),
          GroupClose, One (OneOf [dquote, squote])]],
      [lit ''description:'' @
         [Star Space, GroupOpen, Plus (NoneOf ''\<newline>''), GroupClose]],
      [lit ''description'' @
         [Star Space, One (Lit CHR '':''), Star Space, One (OneOf [dquote, squote]), GroupOpen,
          Plus (NoneOf [dquote, squote]), GroupClose, One (OneOf [dquote, squote])]]]"

text \<open>\<^verbatim>\<open>/---\n[\s\S]*?\n---\n\n([^\n]+)/\<close>\<close>

definition FIRST_PARAGRAPH_REGEX :: regex where
  "FIRST_PARAGRAPH_REGEX =
     [lit ''---\<newline>'' @ [LazyStar AnyChar] @ lit ''\<newline>---\<newline>\<newline>''
        @ [GroupOpen, Plus (NoneOf ''\<newline>''), GroupClose]]"

text \<open>\<^verbatim>\<open>/links:\n([\s\S]*?)(?=\n\w|$)/\<close>\<close>

definition LINKS_REGEX :: regex where
  "LINKS_REGEX =
     [lit ''links:\<newline>'' @
        [GroupOpen, LazyStar AnyChar, GroupClose,
         Lookahead [Ahead [Lit CHR ''\<newline>'', Word], AheadEnd]]]"

text \<open>\<^verbatim>\<open>/doc:\s*([^\n]+)/\<close> and \<^verbatim>\<open>/api:\s*([^\n]+)/\<close>\<close>

definition DOC_LINK_REGEX :: regex where
  "DOC_LINK_REGEX = [lit ''doc:'' @ [Star Space, GroupOpen, Plus (NoneOf ''\<newline>''), GroupClose]]"

definition API_LINK_REGEX :: regex where
  "API_LINK_REGEX = [lit ''api:'' @ [Star Space, GroupOpen, Plus (NoneOf ''\<newline>''), GroupClose]]"

text \<open>\<^verbatim>\<open>/```bash\nnpx shadcn@latest add [^\n]+\n```/\<close>\<close>

definition CLI_COMMAND_REGEX :: regex where
  "CLI_COMMAND_REGEX =
     [lit (fence @ ''bash\<newline>npx shadcn@latest add '') @ [Plus (NoneOf ''\<newline>'')]
        @ lit (''\<newline>'' @ fence)]"

text \<open>\<^verbatim>\<open>/```bash\n|\n```/g\<close>\<close>

definition FENCE_MARKERS_REGEX :: regex where
  "FENCE_MARKERS_REGEX = [lit (fence @ ''bash\<newline>''), lit (''\<newline>'' @ fence)]"

text \<open>
  \<^verbatim>\<open>match[1]\<close>: every expression read this way has its group outside any alternative,
  so the group takes part in every match; an unset group is read as the empty text here.
\<close>

fun group1 :: "rmatch \<Rightarrow> string" where
  "group1 (whole, Some g) = g"
| "group1 (whole, None) = []"

text \<open>The loop of \<^verbatim>\<open>extractDescription\<close> over the patterns.\<close>

fun first_description :: "regex list \<Rightarrow> string \<Rightarrow> string option" where
  "first_description [] frontmatter = None"
| "first_description (pat # pats) frontmatter =
     (case js_match frontmatter pat of
        Some m \<Rightarrow> Some (trim (group1 m))
      | None \<Rightarrow> first_description pats frontmatter)"

definition extractDescription :: "string \<Rightarrow> string \<Rightarrow> string" where
  "extractDescription frontmatter mdxContent =
     (case first_description DESCRIPTION_PATTERNS frontmatter of
        Some d \<Rightarrow> d
      | None \<Rightarrow>
          (case js_match mdxContent FIRST_PARAGRAPH_REGEX of
             Some m \<Rightarrow> trim (group1 m)
           | None \<Rightarrow> []))"

definition extractLinks :: "string \<Rightarrow> string list" where
  "extractLinks frontmatter =
     (case js_match frontmatter LINKS_REGEX of
        None \<Rightarrow> []
      | Some linksMatch \<Rightarrow>
          (let linksContent = group1 linksMatch in
             (case js_match linksContent DOC_LINK_REGEX of
                None \<Rightarrow> [] | Some m \<Rightarrow> [trim (group1 m)])
             @ (case js_match linksContent API_LINK_REGEX of
                None \<Rightarrow> [] | Some m \<Rightarrow> [trim (group1 m)])))"

text \<open>
  \<^verbatim>\<open>transformComponentData\<close>, the closure of \<^verbatim>\<open>fetchAndCacheComponentData\<close> over
  the component name. An empty command is falsy, and then no commands are stored.
\<close>

definition transformComponentData :: "string \<Rightarrow> string \<Rightarrow> ComponentDocResource list" where
  "transformComponentData component mdxContent =
     (let frontmatter = (case js_match mdxContent FRONTMATTER_REGEX of
                           Some m \<Rightarrow> group1 m | None \<Rightarrow> []);
          description = extractDescription frontmatter mdxContent;
          links = extractLinks frontmatter;
          cliCommand = (case js_match mdxContent CLI_COMMAND_REGEX of
                          Some m \<Rightarrow> Some (trim (js_remove_all (fst m) FENCE_MARKERS_REGEX))
                        | None \<Rightarrow> None);
          commands = (case cliCommand of
                        None \<Rightarrow> None
                      | Some cmd \<Rightarrow>
                          if cmd = [] then None
                          else Some [\<lparr>npm = cmd,
                                      pnpm = getCliCommand cmd (Some Pnpm),
                                      yarn = getCliCommand cmd (Some Yarn),
                                      bun = getCliCommand cmd (Some Bun)\<rparr>])
      in [\<lparr>name = component,
           description = Some description,
           doc = Some mdxContent,
           commands = commands,
           links = (if length links > 0 then Some links else None),
           isBlock = Some False\<rparr>])"

section \<open>Occurrences of a text\<close>

text \<open>
  \<open>occurs pat s\<close>: the text \<open>pat\<close> stands somewhere in \<open>s\<close>;
  \<open>first_at pat s n\<close>: it stands at index \<open>n\<close> and at no smaller index;
  \<open>only_at pat s n\<close>: it stands at index \<open>n\<close> and at no other index.
\<close>

definition occurs :: "string \<Rightarrow> string \<Rightarrow> bool" where
  "occurs pat s = list_ex (\<lambda>i. prefix pat (drop i s)) [0..<Suc (length s)]"

definition first_at :: "string \<Rightarrow> string \<Rightarrow> nat \<Rightarrow> bool" where
  "first_at pat s n =
     (prefix pat (drop n s) \<and> list_all (\<lambda>i. \<not> prefix pat (drop i s)) [0..<n])"

definition only_at :: "string \<Rightarrow> string \<Rightarrow> nat \<Rightarrow> bool" where
  "only_at pat s n =
     (prefix pat (drop n s) \<and> list_all (\<lambda>i. i = n \<or> \<not> prefix pat (drop i s)) [0..<Suc (length s)])"

section \<open>The description rules, read off the text\<close>

text \<open>
  What the description patterns find, said without the matcher, for the comparison with
  \<^verbatim>\<open>extractDescription\<close>. A value between quotes at the head of a text: a quote, the
  longest run of characters that are not quotes, which must not be empty, and a quote.
\<close>

definition is_quote :: "char \<Rightarrow> bool" where
  "is_quote c = (c = dquote \<or> c = squote)"

definition quoted_value :: "string \<Rightarrow> string option" where
  "quoted_value s =
     (case s of
        [] \<Rightarrow> None
      | q # r \<Rightarrow>
          if is_quote q \<and> takeWhile (\<lambda>c. \<not> is_quote c) r \<noteq> []
             \<and> dropWhile (\<lambda>c. \<not> is_quote c) r \<noteq> []
          then Some (takeWhile (\<lambda>c. \<not> is_quote c) r)
          else None)"

text \<open>The line at the head of a text: its characters up to the first line break, if any.\<close>

definition line_value :: "string \<Rightarrow> string option" where
  "line_value s =
     (case s of
        [] \<Rightarrow> None
      | c # r \<Rightarrow> if c = CHR ''\<newline>'' then None else Some (takeWhile (\<lambda>c. c \<noteq> CHR ''\<newline>'') s))"

text \<open>
  An unquoted value: the line that starts at the first character that is not white space,
  line breaks being white space too. When only white space is left, the value is the last
  of its characters that is not a line break, alone; there is no value when there is none.
\<close>

definition unquoted_value :: "string \<Rightarrow> string option" where
  "unquoted_value s =
     (if dropWhile is_space s \<noteq> [] then line_value (dropWhile is_space s)
      else (case filter (\<lambda>c. c \<noteq> CHR ''\<newline>'') s of
              [] \<Rightarrow> None
            | c # r \<Rightarrow> Some [last (c # r)]))"

text \<open>
  The three rules at the head of a text: (a) \<^verbatim>\<open>description:\<close>, white space, a
  quoted value; (b) \<^verbatim>\<open>description:\<close> and an unquoted value; (c)
  \<^verbatim>\<open>description\<close>, white space, a colon, white space, a quoted value.
\<close>

definition quoted_field :: "string \<Rightarrow> string option" where
  "quoted_field s =
     (if prefix ''description:'' s
      then quoted_value (dropWhile is_space (drop (length ''description:'') s))
      else None)"

definition unquoted_field :: "string \<Rightarrow> string option" where
  "unquoted_field s =
     (if prefix ''description:'' s then unquoted_value (drop (length ''description:'') s)
      else None)"

definition spaced_field :: "string \<Rightarrow> string option" where
  "spaced_field s =
     (if prefix ''description'' s
      then (case dropWhile is_space (drop (length ''description'') s) of
              [] \<Rightarrow> None
            | c # r \<Rightarrow> if c = CHR '':'' then quoted_value (dropWhile is_space r) else None)
      else None)"

text \<open>A rule is tried at every index of the text from the left; the first find counts.\<close>

fun leftmost :: "(string \<Rightarrow> 'a option) \<Rightarrow> string \<Rightarrow> 'a option" where
  "leftmost f [] = f []"
| "leftmost f (c # s) = (case f (c # s) of Some x \<Rightarrow> Some x | None \<Rightarrow> leftmost f s)"

text \<open>
  The first paragraph at the head of a text: the text opens with a \<^verbatim>\<open>---\<close> line,
  and further on the first \<^verbatim>\<open>---\<close> line that is followed by one empty line and then
  by a line that is not empty gives that line.
\<close>

definition paragraph_line :: "string \<Rightarrow> string option" where
  "paragraph_line s =
     (if prefix ''\<newline>---\<newline>\<newline>'' s then line_value (drop (length ''\<newline>---\<newline>\<newline>'') s) else None)"

definition opening_paragraph :: "string \<Rightarrow> string option" where
  "opening_paragraph s =
     (if prefix ''---\<newline>'' s then leftmost paragraph_line (drop (length ''---\<newline>'') s) else None)"

text \<open>
  \<open>no_line_after pat s\<close>: wherever \<open>pat\<close> stands in \<open>s\<close>, the text ends after it
  or goes on with a line break.
\<close>

definition no_line_after :: "string \<Rightarrow> string \<Rightarrow> bool" where
  "no_line_after pat s =
     list_all (\<lambda>i. \<not> prefix pat (drop i s) \<or> line_value (drop (i + length pat) s) = None)
       [0..<Suc (length s)]"

section \<open>The fallback rule in the words of the specification\<close>

text \<open>
  The specification describes the fallback of the description extraction as "the first
  non-blank line of body text immediately following the frontmatter block". Read by
  itself: the body is the text after the frontmatter block (what
  \<^verbatim>\<open>FRONTMATTER_REGEX\<close> matches), and the description is the first of its lines that
  is not blank, trimmed; it is empty when there is no such line or no frontmatter block.
\<close>

definition spec_first_body_line :: "string \<Rightarrow> string" where
  "spec_first_body_line mdxContent =
     (case js_match mdxContent FRONTMATTER_REGEX of
        None \<Rightarrow> []
      | Some m \<Rightarrow>
          (case filter (\<lambda>l. l \<noteq> [])
                  (map trim (split_on CHR ''\<newline>'' (drop (length (fst m)) mdxContent))) of
             [] \<Rightarrow> []
           | l # ls \<Rightarrow> l))"

section \<open>Parsed pages and selectors\<close>

text \<open>
  The HTML parser is the library cheerio, which is not part of this program: the page
  functions take it as the parameter \<open>load\<close>, from the page text to the roots of the
  parsed tree. The tree and the selector queries the program makes on it are modelled
  here: an element has a tag name, its attributes (the first of two attributes of one
  name counts) and its children, in document order.
\<close>

datatype node = Element string "(string \<times> string) list" "node list" | TextNode string

fun children :: "node \<Rightarrow> node list" where
  "children (Element tg attrs cs) = cs"
| "children (TextNode t) = []"

text \<open>\<^verbatim>\<open>.attr(a)\<close>: the value of the attribute, \<^verbatim>\<open>undefined\<close> when there is none.\<close>

fun attr :: "string \<Rightarrow> node \<Rightarrow> string option" where
  "attr a (Element tg attrs cs) = map_of attrs a"
| "attr a (TextNode t) = None"

text \<open>\<^verbatim>\<open>.text()\<close> of one node: the text nodes below it, joined in document order.\<close>

fun node_text :: "node \<Rightarrow> string" where
  "node_text (TextNode t) = t"
| "node_text (Element tg attrs cs) = concat (map node_text cs)"

text \<open>\<^verbatim>\<open>.text()\<close> of a selection joins the texts of its elements.\<close>

definition selection_text :: "node list \<Rightarrow> string" where
  "selection_text els = concat (map node_text els)"

text \<open>
  The elements of a subtree in document order, the root first, each with its ancestors
  (the nearest first).
\<close>

fun elements_below :: "node list \<Rightarrow> node \<Rightarrow> (node list \<times> node) list" where
  "elements_below anc (TextNode t) = []"
| "elements_below anc (Element tg attrs cs) =
     (anc, Element tg attrs cs)
       # concat (map (elements_below (Element tg attrs cs # anc)) cs)"

text \<open>The names in a \<^verbatim>\<open>class\<close> attribute: its pieces between white space.\<close>

fun tokens_acc :: "string \<Rightarrow> string \<Rightarrow> string list" where
  "tokens_acc cur [] = (if cur = [] then [] else [cur])"
| "tokens_acc cur (c # s) =
     (if is_space c then (if cur = [] then tokens_acc [] s else cur # tokens_acc [] s)
      else tokens_acc (cur @ [c]) s)"

definition class_names :: "node \<Rightarrow> string list" where
  "class_names el = (case attr ''class'' el of None \<Rightarrow> [] | Some v \<Rightarrow> tokens_acc [] v)"

text \<open>
  The simple selectors the program writes: a tag name, \<^verbatim>\<open>.name\<close>, \<^verbatim>\<open>[a]\<close> and
  \<^verbatim>\<open>[a^="p"]\<close>. A compound selector is a list of them, all of which must hold.
\<close>

datatype simple = Tag string | Class string | HasAttr string | AttrPrefix string string

fun matches_simple :: "simple \<Rightarrow> node \<Rightarrow> bool" where
  "matches_simple s (TextNode t) = False"
| "matches_simple (Tag n) (Element tg attrs cs) = (tg = n)"
| "matches_simple (Class n) (Element tg attrs cs) = (n \<in> set (class_names (Element tg attrs cs)))"
| "matches_simple (HasAttr a) (Element tg attrs cs) = (map_of attrs a \<noteq> None)"
| "matches_simple (AttrPrefix a p) (Element tg attrs cs) =
     (case map_of attrs a of None \<Rightarrow> False | Some v \<Rightarrow> prefix p v)"

definition matches_compound :: "simple list \<Rightarrow> node \<Rightarrow> bool" where
  "matches_compound ss el = list_all (\<lambda>s. matches_simple s el) ss"

text \<open>
  A selector, read from the left: a compound, or a selector followed by a combinator
  (\<^verbatim>\<open>>\<close> or white space) and a compound.
\<close>

datatype combinator = Child | Descendant

datatype selector = Compound "simple list" | Chain selector combinator "simple list"

fun with_ancestors :: "node list \<Rightarrow> (node list \<times> node) list" where
  "with_ancestors [] = []"
| "with_ancestors (p # anc) = (anc, p) # with_ancestors anc"

fun matches :: "selector \<Rightarrow> node list \<times> node \<Rightarrow> bool" where
  "matches (Compound ss) (anc, el) = matches_compound ss el"
| "matches (Chain sel Child ss) (anc, el) =
     (matches_compound ss el \<and> (case anc of [] \<Rightarrow> False | p # anc' \<Rightarrow> matches sel (anc', p)))"
| "matches (Chain sel Descendant ss) (anc, el) =
     (matches_compound ss el \<and> list_ex (matches sel) (with_ancestors anc))"

text \<open>\<^verbatim>\<open>$(selector)\<close> on a loaded page: the matching elements in document order.\<close>

definition select :: "selector \<Rightarrow> node list \<Rightarrow> node list" where
  "select sel roots = map snd (filter (matches sel) (concat (map (elements_below []) roots)))"

text \<open>
  \<^verbatim>\<open>$(el).find(selector)\<close>: the matching elements strictly below \<open>el\<close>, in
  document order. The selector is matched within \<open>el\<close>: the elements that its
  combinators name on the way are \<open>el\<close> itself or lie below it, so the leftmost
  compound may be \<open>el\<close>, and nothing above \<open>el\<close> is looked at.
\<close>

definition find_below :: "selector \<Rightarrow> node \<Rightarrow> node list" where
  "find_below sel el =
     map snd (filter (matches sel) (concat (map (elements_below [el]) (children el))))"

text \<open>\<^verbatim>\<open>.first()\<close>\<close>

definition first_of :: "node list \<Rightarrow> node list" where
  "first_of els = take 1 els"

section \<open>The HTML scraper\<close>

text \<open>\<^verbatim>\<open>.container-wrapper.flex-1 div[id]\<close>\<close>

definition BLOCK_SELECTOR :: selector where
  "BLOCK_SELECTOR =
     Chain (Compound [Class ''container-wrapper'', Class ''flex-1'']) Descendant
       [Tag ''div'', HasAttr ''id'']"

text \<open>\<^verbatim>\<open>div.flex.w-full.items-center.gap-2.md\:pr-\[14px\]\<close>\<close>

definition TOOLBAR :: "simple list" where
  "TOOLBAR =
     [Tag ''div'', Class ''flex'', Class ''w-full'', Class ''items-center'', Class ''gap-2'',
      Class ''md:pr-[14px]'']"

definition ANCHOR_SELECTOR :: selector where
  "ANCHOR_SELECTOR = Chain (Compound TOOLBAR) Child [Tag ''a'']"

text \<open>
  \<^verbatim>\<open>div.flex.w-full.items-center.gap-2.md\:pr-\[14px\] > div.ml-auto.hidden.items-center.gap-2.md\:flex > div.flex.h-7.items-center.gap-1.rounded-md.border.p-\[2px\] > button > span\<close>
\<close>

definition COMMAND_SELECTOR :: selector where
  "COMMAND_SELECTOR =
     Chain
       (Chain
          (Chain
             (Chain (Compound TOOLBAR) Child
                [Tag ''div'', Class ''ml-auto'', Class ''hidden'', Class ''items-center'',
                 Class ''gap-2'', Class ''md:flex''])
             Child
             [Tag ''div'', Class ''flex'', Class ''h-7'', Class ''items-center'', Class ''gap-1'',
              Class ''rounded-md'', Class ''border'', Class ''p-[2px]''])
          Child [Tag ''button''])
       Child [Tag ''span'']"

definition CODE_SELECTOR :: selector where
  "CODE_SELECTOR = Compound [Tag ''code'']"

text \<open>\<^verbatim>\<open>a[href^="/docs/components/"]\<close>\<close>

definition COMPONENT_LINK_SELECTOR :: selector where
  "COMPONENT_LINK_SELECTOR = Compound [Tag ''a'', AttrPrefix ''href'' ''/docs/components/'']"

text \<open>
  The body of the \<^verbatim>\<open>each\<close> loop of \<^verbatim>\<open>parseBlocksFromPage\<close>: the block pushed
  for one element, if any.
\<close>

definition block_of_element :: "node \<Rightarrow> Block option" where
  "block_of_element el =
     (case attr ''id'' el of
        None \<Rightarrow> None
      | Some ident \<Rightarrow>
          if ident \<noteq> [] \<and> \<not> startsWith ident ''radix-''
          then Some
            \<lparr>block_name = ident,
             block_command = trim (selection_text (find_below COMMAND_SELECTOR el)),
             block_doc = trim (selection_text (first_of (find_below CODE_SELECTOR el))),
             block_description = Some (trim (selection_text (find_below ANCHOR_SELECTOR el)))\<rparr>
          else None)"

definition scrape_blocks :: "node list \<Rightarrow> Block list" where
  "scrape_blocks roots = List.map_filter block_of_element (select BLOCK_SELECTOR roots)"

definition parseBlocksFromPage ::
  "(string \<Rightarrow> node list) \<Rightarrow> string \<Rightarrow> world \<Rightarrow> (error + Block list) \<times> world" where
  "parseBlocksFromPage load url w =
     (if url = [] \<or> \<not> startsWith url ''https://'' then (Inl (Error (''Invalid URL: '' @ url)), w)
      else
        (case fetchWithRetry url RETRY_ATTEMPTS RETRY_DELAY_MS w of
           (Inl e, w1) \<Rightarrow>
             (Inl (Error (''Failed to parse blocks from '' @ url @ '': '' @ message e)), w1)
         | (Inr r, w1) \<Rightarrow>
             (case body r of
                Inl e \<Rightarrow>
                  (Inl (Error (''Failed to parse blocks from '' @ url @ '': '' @ message e)), w1)
              | Inr html \<Rightarrow>
                  (let blocks = scrape_blocks (load html)
                   in (Inr blocks,
                       if length blocks = 0
                       then console_error (''Warning: No blocks found at '' @ url) w1
                       else w1)))))"

text \<open>
  \<^verbatim>\<open>parseComponentsFromHtml\<close>. The callback of \<^verbatim>\<open>map\<close> gives the text after the
  last slash of the \<^verbatim>\<open>href\<close>; \<^verbatim>\<open>filter(Boolean)\<close> drops the empty names; the
  default \<^verbatim>\<open>sort()\<close> orders strings by their code units.
\<close>

definition component_name :: "node \<Rightarrow> string option" where
  "component_name el = map_option (\<lambda>href. last (split_on CHR ''/'' href)) (attr ''href'' el)"

definition parseComponentsFromHtml ::
  "(string \<Rightarrow> node list) \<Rightarrow> string \<Rightarrow> world \<Rightarrow> (error + string list) \<times> world" where
  "parseComponentsFromHtml load html w =
     (if html = [] then (Inl (Error ''Invalid HTML content''), w)
      else
        (let components =
               sort (filter (\<lambda>n. n \<noteq> [])
                 (List.map_filter component_name (select COMPONENT_LINK_SELECTOR (load html))))
         in (Inr components,
             if length components = 0
             then console_error ''Warning: No components found in HTML'' w
             else w)))"

section \<open>The resource cache\<close>

text \<open>
  An asynchronous function that may throw is a function from the world to its result and
  the world it leaves: \<open>Inl\<close> is the thrown error.
\<close>

type_synonym 'a task = "world \<Rightarrow> (error + 'a) \<times> world"

text \<open>
  \<^verbatim>\<open>cacheResource\<close> works on the map it is given: the model returns that map next to
  the result.
\<close>

definition cacheResource ::
  "string \<Rightarrow> 'a task \<Rightarrow> (string \<rightharpoonup> 'a) \<Rightarrow> world \<Rightarrow> ((error + 'a) \<times> (string \<rightharpoonup> 'a)) \<times> world" where
  "cacheResource key fetchFn cache w =
     (case cache key of
        Some v \<Rightarrow> ((Inr v, cache), w)
      | None \<Rightarrow>
          (case fetchFn w of
             (Inr v, w1) \<Rightarrow> ((Inr v, cache(key \<mapsto> v)), w1)
           | (Inl e, w1) \<Rightarrow>
               ((Inl (Error (''Failed to fetch data for key '' @ [squote] @ key @ [squote]
                        @ '': '' @ message e)), cache), w1)))"

text \<open>\<^verbatim>\<open>transformedData.forEach(data => resourceCache.set(data.name, data))\<close>\<close>

fun cache_all :: "ComponentDocResource list \<Rightarrow> world \<Rightarrow> world" where
  "cache_all [] w = w"
| "cache_all (d # ds) w = cache_all ds (w\<lparr>resourceCache := (resourceCache w)(name d \<mapsto> d)\<rparr>)"

definition fetchAndCache ::
  "string \<Rightarrow> 'a task \<Rightarrow> ('a \<Rightarrow> error + ComponentDocResource list) \<Rightarrow> ComponentDocResource list task" where
  "fetchAndCache key fetchFn transformFn w =
     (case fetchFn w of
        (Inl e, w1) \<Rightarrow>
          (Inl (Error (''Failed to fetch and transform data for key '' @ [squote] @ key
                 @ [squote] @ '': '' @ message e)), w1)
      | (Inr rawData, w1) \<Rightarrow>
          (case transformFn rawData of
             Inl e \<Rightarrow>
               (Inl (Error (''Failed to fetch and transform data for key '' @ [squote] @ key
                      @ [squote] @ '': '' @ message e)), w1)
           | Inr transformedData \<Rightarrow> (Inr transformedData, cache_all transformedData w1)))"

text \<open>The characters \<^verbatim>\<open>[a-zA-Z0-9-_]\<close> that the sanitizer keeps.\<close>

definition is_name_char :: "char \<Rightarrow> bool" where
  "is_name_char c =
     ((CHR ''a'' \<le> c \<and> c \<le> CHR ''z'') \<or> (CHR ''A'' \<le> c \<and> c \<le> CHR ''Z'')
      \<or> (CHR ''0'' \<le> c \<and> c \<le> CHR ''9'') \<or> c = CHR ''-'' \<or> c = CHR ''_'')"

definition component_url :: "string \<Rightarrow> string" where
  "component_url component =
     RAW_GITHUB_URL @ ''/'' @ ''www/content/docs/components'' @ ''/'' @ component @ ''.mdx''"

text \<open>The fetch closure: \<^verbatim>\<open>fetchWithRetry(url)\<close>, then \<^verbatim>\<open>response.text()\<close>.\<close>

definition fetch_text :: "string \<Rightarrow> string task" where
  "fetch_text url w =
     (case fetchWithRetry url RETRY_ATTEMPTS RETRY_DELAY_MS w of
        (Inl e, w1) \<Rightarrow> (Inl e, w1)
      | (Inr r, w1) \<Rightarrow> (body r, w1))"

text \<open>
  \<^verbatim>\<open>fetchAndCacheComponentData\<close>. The transform always returns one resource, so the
  destructuring \<^verbatim>\<open>[componentData]\<close> never reads an empty array; the model gives that
  case an error of its own.
\<close>

definition fetchAndCacheComponentData :: "string \<Rightarrow> ComponentDocResource task" where
  "fetchAndCacheComponentData component w =
     (if component = [] then (Inl (Error ''Invalid component name''), w)
      else if filter is_name_char component \<noteq> component
      then (Inl (Error (''Invalid component name: '' @ component)), w)
      else
        (case resourceCache w component of
           Some r \<Rightarrow> (Inr r, w)
         | None \<Rightarrow>
             (case fetchAndCache component (fetch_text (component_url component))
                     (\<lambda>mdxContent. Inr (transformComponentData component mdxContent)) w of
                (Inl e, w1) \<Rightarrow> (Inl e, w1)
              | (Inr [], w1) \<Rightarrow> (Inl (Error ''componentData is undefined''), w1)
              | (Inr (componentData # rest), w1) \<Rightarrow> (Inr componentData, w1))))"

text \<open>The callback of \<^verbatim>\<open>allBlocks.map\<close> in \<^verbatim>\<open>transformBlocks\<close>.\<close>

definition block_resource :: "Block \<Rightarrow> ComponentDocResource" where
  "block_resource block =
     \<lparr>name = block_name block,
      description = block_description block,
      doc = Some (block_doc block),
      commands = Some [\<lparr>npm = block_command block,
                        pnpm = getCliCommand (block_command block) (Some Pnpm),
                        yarn = getCliCommand (block_command block) (Some Yarn),
                        bun = getCliCommand (block_command block) (Some Bun)\<rparr>],
      links = None,
      isBlock = Some True\<rparr>"

definition transformBlocks :: "Block list list \<Rightarrow> ComponentDocResource list" where
  "transformBlocks blockPages = map block_resource (concat blockPages)"

text \<open>
  \<^verbatim>\<open>Promise.all\<close>: every task is started and runs to its end, whether or not another
  one fails, and the result is an error as soon as one task has failed. The model runs
  the tasks one after the other in the order of the array (\<open>settle_all\<close>), reports the
  failure of the first failing task in that order, and gives back the world in which every
  task has ended. The tasks here fetch different URLs, and what a fetch receives depends on
  its URL and on the number of earlier fetches of that URL only, so each task receives what
  it receives in the program, succeeds or fails as it does there, and the cache is the same.
  Two things are the model's own choice: when several tasks fail, the program reports the
  failure that comes first in time, which need not be the first of the array; and the
  program's fetches and delays of different tasks interleave in the logs, and those of a
  task that is still retrying come after the rejection has been reported.
\<close>

fun settle_all :: "'a task list \<Rightarrow> world \<Rightarrow> (error + 'a) list \<times> world" where
  "settle_all [] w = ([], w)"
| "settle_all (t # ts) w =
     (case t w of (r, w1) \<Rightarrow> (case settle_all ts w1 of (rs, w2) \<Rightarrow> (r # rs, w2)))"

fun all_or_first_error :: "(error + 'a) list \<Rightarrow> error + 'a list" where
  "all_or_first_error [] = Inr []"
| "all_or_first_error (Inl e # rs) = Inl e"
| "all_or_first_error (Inr x # rs) =
     (case all_or_first_error rs of Inl e \<Rightarrow> Inl e | Inr xs \<Rightarrow> Inr (x # xs))"

definition promise_all :: "'a task list \<Rightarrow> 'a list task" where
  "promise_all ts w = (case settle_all ts w of (rs, w1) \<Rightarrow> (all_or_first_error rs, w1))"

definition fetchAndCacheBlocks :: "(string \<Rightarrow> node list) \<Rightarrow> ComponentDocResource list task" where
  "fetchAndCacheBlocks load =
     fetchAndCache ''blocks'' (promise_all (map (parseBlocksFromPage load) BLOCK_PAGES))
       (\<lambda>blockPages. Inr (transformBlocks blockPages))"

section \<open>The tool handlers\<close>

text \<open>
  A tool response: its one text content, the MIME type if one was given, and the error
  flag (absent in the source when it is false).
\<close>

record tool_response =
  response_text :: string
  mimeType :: "string option"
  isError :: bool

definition createResponse :: "string \<Rightarrow> bool \<Rightarrow> string option \<Rightarrow> tool_response" where
  "createResponse txt is_error mime =
     \<lparr>response_text = txt,
      mimeType = (case mime of None \<Rightarrow> None | Some m \<Rightarrow> if m = [] then None else Some m),
      isError = is_error\<rparr>"

definition handleError :: "error \<Rightarrow> string \<Rightarrow> tool_response" where
  "handleError e pre = createResponse (pre @ '': '' @ message e) True None"

text \<open>
  An optional string argument is a \<^typ>\<open>string option\<close>; \<^verbatim>\<open>undefined\<close> and the
  empty string are the falsy ones.
\<close>

definition truthy :: "string option \<Rightarrow> bool" where
  "truthy v = (case v of None \<Rightarrow> False | Some s \<Rightarrow> s \<noteq> [])"

definition template :: "string option \<Rightarrow> string" where
  "template v = (case v of None \<Rightarrow> ''undefined'' | Some s \<Rightarrow> s)"

definition validateRuntime :: "string option \<Rightarrow> bool" where
  "validateRuntime runtime =
     (case runtime of
        None \<Rightarrow> True
      | Some r \<Rightarrow> r = [] \<or> r \<in> set [''npm'', ''pnpm'', ''yarn'', ''bun''])"

text \<open>\<^verbatim>\<open>resource.commands?.[0]\<close>\<close>

definition first_commands :: "ComponentDocResource \<Rightarrow> CommandSet option" where
  "first_commands r = (case commands r of None \<Rightarrow> None | Some [] \<Rightarrow> None | Some (c # cs) \<Rightarrow> Some c)"

text \<open>
  \<^verbatim>\<open>commands[selectedRuntime]\<close>: the runtime has passed \<^verbatim>\<open>validateRuntime\<close>, so it
  is one of the four keys; any other key reads \<^verbatim>\<open>undefined\<close>.
\<close>

definition command_of :: "CommandSet \<Rightarrow> string \<Rightarrow> string option" where
  "command_of cs r =
     (if r = ''npm'' then Some (npm cs)
      else if r = ''pnpm'' then Some (pnpm cs)
      else if r = ''yarn'' then Some (yarn cs)
      else if r = ''bun'' then Some (bun cs)
      else None)"

text \<open>
  The common end of \<^verbatim>\<open>installComponent\<close> and \<^verbatim>\<open>installBlock\<close>, from the test of
  \<^verbatim>\<open>commands?.[0]\<close> on; \<open>kind\<close> is the word \<^verbatim>\<open>component\<close> or \<^verbatim>\<open>block\<close> of
  the message.
\<close>

definition select_command ::
  "string \<Rightarrow> string \<Rightarrow> string option \<Rightarrow> ComponentDocResource \<Rightarrow> tool_response" where
  "select_command kind nm runtime r =
     (case first_commands r of
        None \<Rightarrow>
          createResponse (''No installation command found for '' @ kind @ '' '' @ [squote] @ nm
            @ [squote]) True None
      | Some cs \<Rightarrow>
          (let command = (case runtime of
                            None \<Rightarrow> Some (npm cs)
                          | Some rt \<Rightarrow> if rt \<noteq> [] then command_of cs rt else Some (npm cs))
           in (case command of
                 None \<Rightarrow>
                   createResponse (''No installation command found for runtime '' @ [squote]
                     @ template runtime @ [squote]) True None
               | Some cmd \<Rightarrow>
                   if cmd = []
                   then createResponse (''No installation command found for runtime '' @ [squote]
                          @ template runtime @ [squote]) True None
                   else createResponse cmd False None)))"

definition invalid_runtime :: "string option \<Rightarrow> tool_response" where
  "invalid_runtime runtime =
     createResponse (''Invalid runtime: '' @ template runtime
       @ ''. Must be one of: npm, pnpm, yarn, bun'') True None"

definition installComponent :: "string \<Rightarrow> string option \<Rightarrow> world \<Rightarrow> tool_response \<times> world" where
  "installComponent component runtime w =
     (if component = [] then (createResponse ''Component name is required'' True None, w)
      else if truthy runtime \<and> \<not> validateRuntime runtime then (invalid_runtime runtime, w)
      else
        (case fetchAndCacheComponentData component w of
           (Inl e, w1) \<Rightarrow> (handleError e ''Error generating installation command'', w1)
         | (Inr componentData, w1) \<Rightarrow>
             (select_command ''component'' component runtime componentData, w1)))"

definition getComponentDocs :: "string \<Rightarrow> world \<Rightarrow> tool_response \<times> world" where
  "getComponentDocs component w =
     (if component = [] then (createResponse ''Component name is required'' True None, w)
      else
        (case fetchAndCacheComponentData component w of
           (Inl e, w1) \<Rightarrow> (handleError e ''Error fetching component documentation'', w1)
         | (Inr componentData, w1) \<Rightarrow>
             (if \<not> truthy (description componentData) \<and> \<not> truthy (doc componentData)
              then createResponse (''No documentation found for component '' @ [squote]
                     @ component @ [squote]) True None
              else createResponse (template (doc componentData)) False (Some ''text/markdown''),
              w1)))"

text \<open>
  \<^verbatim>\<open>getBlockData\<close> returns either \<^verbatim>\<open>{ error }\<close> or \<^verbatim>\<open>{ blockData }\<close>, and
  throws what \<^verbatim>\<open>fetchAndCacheBlocks\<close> throws.
\<close>

datatype block_lookup = BlockError string | BlockData ComponentDocResource

definition getBlockData :: "(string \<Rightarrow> node list) \<Rightarrow> string \<Rightarrow> block_lookup task" where
  "getBlockData load block w =
     (if block = [] then (Inr (BlockError ''Block name is required''), w)
      else
        (case resourceCache w block of
           Some blockData \<Rightarrow> (Inr (BlockData blockData), w)
         | None \<Rightarrow>
             (case fetchAndCacheBlocks load w of
                (Inl e, w1) \<Rightarrow> (Inl e, w1)
              | (Inr rs, w1) \<Rightarrow>
                  (case resourceCache w1 block of
                     None \<Rightarrow>
                       (Inr (BlockError (''Block '' @ [squote] @ block @ [squote]
                          @ '' not found. Use list-blocks to see available blocks.'')), w1)
                   | Some blockData \<Rightarrow> (Inr (BlockData blockData), w1)))))"

definition installBlock ::
  "(string \<Rightarrow> node list) \<Rightarrow> string \<Rightarrow> string option \<Rightarrow> world \<Rightarrow> tool_response \<times> world" where
  "installBlock load block runtime w =
     (if truthy runtime \<and> \<not> validateRuntime runtime then (invalid_runtime runtime, w)
      else
        (case getBlockData load block w of
           (Inl e, w1) \<Rightarrow> (handleError e ''Error generating installation command'', w1)
         | (Inr (BlockError msg), w1) \<Rightarrow> (createResponse msg True None, w1)
         | (Inr (BlockData blockData), w1) \<Rightarrow>
             (select_command ''block'' block runtime blockData, w1)))"

section \<open>Sequences of lookups\<close>




section \<open>The earlier scraper\<close>

text \<open>
  The repository still holds the first version of the block scraper (the module the
  first server imported): its \<^verbatim>\<open>parseBlocksFromPage\<close> fetches once, without retry
  and without looking at the status, and keeps an element only when name, command and
  code are all non-empty. Its blocks have the fields name, command and code.
\<close>

record parsers_Block =
  parsers_name :: string
  parsers_command :: string
  parsers_code :: string

text \<open>\<^verbatim>\<open>main .content-wrapper > div\<close>, \<^verbatim>\<open>a[href^="#"]\<close> and \<^verbatim>\<open>span.hidden.lg\:inline\<close>\<close>

definition PARSERS_BLOCK_SELECTOR :: selector where
  "PARSERS_BLOCK_SELECTOR =
     Chain (Chain (Compound [Tag ''main'']) Descendant [Class ''content-wrapper'']) Child
       [Tag ''div'']"

definition PARSERS_ANCHOR_SELECTOR :: selector where
  "PARSERS_ANCHOR_SELECTOR = Compound [Tag ''a'', AttrPrefix ''href'' ''#'']"

definition PARSERS_COMMAND_SELECTOR :: selector where
  "PARSERS_COMMAND_SELECTOR = Compound [Tag ''span'', Class ''hidden'', Class ''lg:inline'']"

text \<open>\<^verbatim>\<open>.attr(a)\<close> of a selection reads the attribute of its first element.\<close>

definition selection_attr :: "string \<Rightarrow> node list \<Rightarrow> string option" where
  "selection_attr a els = (case els of [] \<Rightarrow> None | el # rest \<Rightarrow> attr a el)"

definition parsers_block_of_element :: "node \<Rightarrow> parsers_Block option" where
  "parsers_block_of_element el =
     (let nm = (case selection_attr ''href'' (find_below PARSERS_ANCHOR_SELECTOR el) of
                  None \<Rightarrow> []
                | Some href \<Rightarrow> js_replace ''#'' [] href);
          command = trim (selection_text (find_below PARSERS_COMMAND_SELECTOR el));
          code = trim (selection_text (find_below CODE_SELECTOR el))
      in if nm \<noteq> [] \<and> command \<noteq> [] \<and> code \<noteq> []
         then Some \<lparr>parsers_name = nm, parsers_command = command, parsers_code = code\<rparr>
         else None)"

definition parsers_scrape_blocks :: "node list \<Rightarrow> parsers_Block list" where
  "parsers_scrape_blocks roots =
     List.map_filter parsers_block_of_element (select PARSERS_BLOCK_SELECTOR roots)"

definition parsers_parseBlocksFromPage ::
  "(string \<Rightarrow> node list) \<Rightarrow> string \<Rightarrow> world \<Rightarrow> (error + parsers_Block list) \<times> world" where
  "parsers_parseBlocksFromPage load url w =
     (case fetch url w of
        (Rejected e, w1) \<Rightarrow> (Inl e, w1)
      | (Resolved r, w1) \<Rightarrow>
          (case body r of
             Inl e \<Rightarrow> (Inl e, w1)
           | Inr html \<Rightarrow> (Inr (parsers_scrape_blocks (load html)), w1)))"

section \<open>Example worlds\<close>

text \<open>
  A remote host whose third answer is a page, whose sixth answer is an HTTP error and
  which cannot be reached otherwise; \<open>flaky_world k\<close> is a world in which the URL
  \<^verbatim>\<open>u\<close> has been fetched \<open>k\<close> times already.
\<close>

definition page_response :: response where
  "page_response = \<lparr>ok = True, status = 200, statusText = ''OK'', body = Inr ''page''\<rparr>"

definition flaky_network :: "string \<Rightarrow> nat \<Rightarrow> fetch_outcome" where
  "flaky_network url k =
     (if k = 2 then Resolved page_response
      else if k = 5 then
        Resolved \<lparr>ok = False, status = 503, statusText = ''Service Unavailable'', body = Inr []\<rparr>
      else Rejected (Error ''fetch failed''))"

definition flaky_world :: "nat \<Rightarrow> world" where
  "flaky_world k =
     \<lparr>network = flaky_network, fetched = replicate k ''u'', slept = [],
      resourceCache = Map.empty, console = []\<rparr>"

text \<open>
  A world in which every fetch is answered at once with the same small component
  document, and nothing is cached yet.
\<close>

definition button_mdx :: string where
  "button_mdx = fence @ ''bash\<newline>npx shadcn@latest add button\<newline>'' @ fence"

definition docs_world :: world where
  "docs_world =
     \<lparr>network = (\<lambda>url k. Resolved \<lparr>ok = True, status = 200, statusText = ''OK'',
                                     body = Inr button_mdx\<rparr>),
      fetched = [], slept = [], resourceCache = Map.empty, console = []\<rparr>"

text \<open>A world in which no host can be reached.\<close>

definition offline_world :: world where
  "offline_world =
     \<lparr>network = (\<lambda>url k. Rejected (Error ''fetch failed'')),
      fetched = [], slept = [], resourceCache = Map.empty, console = []\<rparr>"

text \<open>
  A block-listing page as the parser hands it over: inside the container there is one
  complete block, one element that has an id and nothing else, and one element the UI
  toolkit has injected.
\<close>

definition example_page :: "node list" where
  "example_page =
     [Element ''div'' [(''class'', ''container-wrapper flex-1'')]
        [Element ''div'' [(''id'', ''sidebar-01'')]
           [Element ''div'' [(''class'', ''flex w-full items-center gap-2 md:pr-[14px]'')]
              [Element ''a'' [(''href'', ''#sidebar-01'')] [TextNode '' A simple sidebar ''],
               Element ''div'' [(''class'', ''ml-auto hidden items-center gap-2 md:flex'')]
                 [Element ''div''
                    [(''class'', ''flex h-7 items-center gap-1 rounded-md border p-[2px]'')]
                    [Element ''button'' []
                       [Element ''span'' [] [TextNode ''npx shadcn@latest add sidebar-01'']]]]],
            Element ''code'' [] [TextNode ''export default function Page() {}'']],
         Element ''div'' [(''id'', ''bare'')] [],
         Element ''div'' [(''id'', ''radix-:r1:'')] [TextNode ''menu'']]]"

text \<open>A block element that is itself the toolbar: the label is its own child.\<close>

definition toolbar_block :: node where
  "toolbar_block =
     Element ''div''
       [(''id'', ''login-01''), (''class'', ''flex w-full items-center gap-2 md:pr-[14px]'')]
       [Element ''a'' [(''href'', ''#login-01'')] [TextNode ''A login form'']]"

definition example_load :: "string \<Rightarrow> node list" where
  "example_load html = example_page"




text \<open>
  A world in which the second block page cannot be reached and every other fetch is
  answered at once.
\<close>

definition auth_down_world :: world where
  "auth_down_world =
     \<lparr>network = (\<lambda>url k. if url = BASE_URL @ ''/blocks/authentication''
                           then Rejected (Error ''fetch failed'')
                           else Resolved \<lparr>ok = True, status = 200, statusText = ''OK'',
                                           body = Inr ''<html>''\<rparr>),
      fetched = [], slept = [], resourceCache = Map.empty, console = []\<rparr>"

text \<open>
  A component-listing page with three links into the component documentation, one of
  them ending in a slash, and one link elsewhere.
\<close>

definition components_page :: "node list" where
  "components_page =
     [Element ''nav'' []
        [Element ''a'' [(''href'', ''/docs/components/button'')] [TextNode ''Button''],
         Element ''a'' [(''href'', ''/docs/installation'')] [TextNode ''Installation''],
         Element ''a'' [(''href'', ''/docs/components/'')] [TextNode ''All''],
         Element ''a'' [(''href'', ''/docs/components/accordion'')] [TextNode ''Accordion'']]]"

text \<open>
  A component document whose body starts on the line after the frontmatter block, with
  no empty line in between.
\<close>

definition no_blank_doc :: string where
  "no_blank_doc = ''---\<newline>title: Button\<newline>---\<newline>A simple button.''"

text \<open>The same document with two empty lines between the frontmatter block and the body.\<close>

definition two_blank_doc :: string where
  "two_blank_doc = ''---\<newline>title: Button\<newline>---\<newline>\<newline>\<newline>A simple button.''"

section \<open>Properties of command derivation\<close>

lemma js_replace_leading: "js_replace pat rep (pat @ rest) = rep @ rest"
proof (cases "pat @ rest")
  case Nil
  then show ?thesis by simp
next
  case (Cons a list)
  have "prefix pat (a # list)"
    by (metis Cons prefixI)
  moreover have "drop (length pat) (a # list) = rest"
    by (metis Cons append_eq_conv_conj)
  ultimately show ?thesis using Cons by simp
qed

lemma js_replace_absent:
  "\<forall>i \<le> length s. \<not> prefix pat (drop i s) \<Longrightarrow> js_replace pat rep s = s"
proof (induction s)
  case Nil
  then show ?case by auto
next
  case (Cons c cs)
  have "\<not> prefix pat (c # cs)"
    using Cons.prems by (metis drop0 le0)
  moreover have "\<forall>i \<le> length cs. \<not> prefix pat (drop i cs)"
  proof (intro allI impI)
    fix i assume "i \<le> length cs"
    then have "\<not> prefix pat (drop (Suc i) (c # cs))"
      using Cons.prems by (metis Suc_le_mono length_Cons)
    then show "\<not> prefix pat (drop i cs)" by simp
  qed
  ultimately show ?case using Cons.IH by simp
qed

text \<open>
  Claim C2. For every canonical command whose leading token is the invocation prefix
  \<^verbatim>\<open>npx\<close>, the command derived for npm (or for no runtime) is the command itself, and
  the commands derived for pnpm, yarn and bun are the command with that leading prefix
  replaced by \<^verbatim>\<open>pnpm dlx\<close>, \<^verbatim>\<open>yarn dlx\<close> and \<^verbatim>\<open>bunx\<close>: all the
  text after the prefix is the same, character by character.
\<close>

theorem getCliCommand_leading_npx:
  "getCliCommand (''npx'' @ rest) None = ''npx'' @ rest
   \<and> getCliCommand (''npx'' @ rest) (Some Npm) = ''npx'' @ rest
   \<and> getCliCommand (''npx'' @ rest) (Some Pnpm) = ''pnpm dlx'' @ rest
   \<and> getCliCommand (''npx'' @ rest) (Some Yarn) = ''yarn dlx'' @ rest
   \<and> getCliCommand (''npx'' @ rest) (Some Bun) = ''bunx'' @ rest"
  unfolding getCliCommand_def by (simp add: js_replace_leading [of "''npx''", simplified])

section \<open>Properties of the fetcher\<close>

lemma fetchWithRetry_success:
  "attempt (network w url (count_list (fetched w) url)) = Inr r \<Longrightarrow>
   fetchWithRetry url retries delay w = (Inr r, w\<lparr>fetched := fetched w @ [url]\<rparr>)"
  by (subst fetchWithRetry.simps) (simp add: fetch_def)

lemma fetchWithRetry_last_failure:
  "attempt (network w url (count_list (fetched w) url)) = Inl e \<Longrightarrow> retries \<le> 1 \<Longrightarrow>
   fetchWithRetry url retries delay w = (Inl e, w\<lparr>fetched := fetched w @ [url]\<rparr>)"
  by (subst fetchWithRetry.simps) (simp add: fetch_def)

lemma fetchWithRetry_retry:
  "attempt (network w url (count_list (fetched w) url)) = Inl e \<Longrightarrow> 1 < retries \<Longrightarrow>
   fetchWithRetry url retries delay w =
     fetchWithRetry url (retries - 1) (delay * 2)
       (w\<lparr>fetched := fetched w @ [url], slept := slept w @ [delay]\<rparr>)"
  by (subst fetchWithRetry.simps) (simp add: fetch_def setTimeout_def)

text \<open>
  The general shape, for any number \<open>n\<close> of attempts and any first delay \<open>d\<close>: when
  the attempts before the \<open>j\<close>-th fail and the \<open>j\<close>-th succeeds or is the last one
  allowed, the result is that of the \<open>j\<close>-th attempt, after \<open>j + 1\<close> fetches and the
  \<open>j\<close> delays \<open>d, 2 d, 4 d, \<dots>\<close>.
\<close>

lemma backoff_shift:
  "(d::int) # map (\<lambda>i. d * 2 * 2 ^ i) [0..<j] = map (\<lambda>i. d * 2 ^ i) [0..<Suc j]"
proof -
  have "map (\<lambda>i. d * 2 ^ i) [0..<Suc j] = d # map (\<lambda>i. d * 2 ^ i) (map Suc [0..<j])"
    by (simp only: upt_conv_Cons [of 0 "Suc j"] map_Suc_upt) (simp)
  then show ?thesis by (simp add: comp_def mult.assoc)
qed

lemma fetchWithRetry_general:
  assumes "j < n"
    and "\<forall>i<j. isl (attempt (network w url (count_list (fetched w) url + i)))"
    and "Suc j = n \<or> \<not> isl (attempt (network w url (count_list (fetched w) url + j)))"
  shows "fetchWithRetry url (int n) d w =
    (attempt (network w url (count_list (fetched w) url + j)),
     w\<lparr>fetched := fetched w @ replicate (Suc j) url,
       slept := slept w @ map (\<lambda>i. d * 2 ^ i) [0..<j]\<rparr>)"
  using assms
proof (induction j arbitrary: n w d)
  case 0
  show ?case
  proof (cases "attempt (network w url (count_list (fetched w) url))")
    case (Inl e)
    then have "n = 1" using 0 by auto
    then show ?thesis
      using fetchWithRetry_last_failure [of w url e "int n" d] Inl by simp
  next
    case (Inr r)
    then show ?thesis
      using fetchWithRetry_success [of w url r "int n" d] by simp
  qed
next
  case (Suc j)
  let ?w1 = "w\<lparr>fetched := fetched w @ [url], slept := slept w @ [d]\<rparr>"
  obtain e where e: "attempt (network w url (count_list (fetched w) url)) = Inl e"
    using Suc.prems(2) by (cases "attempt (network w url (count_list (fetched w) url))") force+
  have n: "1 < int n" using Suc.prems(1) by simp
  obtain m where m: "n = Suc m" using Suc.prems(1) by (cases n) auto
  have step: "fetchWithRetry url (int n) d w = fetchWithRetry url (int m) (d * 2) ?w1"
    using fetchWithRetry_retry [OF e n, of d] m by simp
  have k1: "count_list (fetched ?w1) url = Suc (count_list (fetched w) url)"
    by simp
  have "fetchWithRetry url (int m) (d * 2) ?w1 =
    (attempt (network ?w1 url (count_list (fetched ?w1) url + j)),
     ?w1\<lparr>fetched := fetched ?w1 @ replicate (Suc j) url,
       slept := slept ?w1 @ map (\<lambda>i. d * 2 * 2 ^ i) [0..<j]\<rparr>)"
  proof (rule Suc.IH)
    show "j < m" using Suc.prems(1) m by simp
    show "\<forall>i<j. isl (attempt (network ?w1 url (count_list (fetched ?w1) url + i)))"
      using Suc.prems(2) by (auto simp: k1) 
    show "Suc j = m \<or> \<not> isl (attempt (network ?w1 url (count_list (fetched ?w1) url + j)))"
      using Suc.prems(3) m by (auto simp: k1)
  qed
  then show ?case
    unfolding step using backoff_shift [of d j] by (simp add: k1 del: upt_Suc)
qed

text \<open>
  Claim C1. For every URL and every state of the world, \<^verbatim>\<open>fetchWithRetry\<close> with the
  default parameters (3 attempts, first delay 500 ms) does the following, where the three
  attempts are the next three fetches of the URL: when the first attempt succeeds it
  returns that response after one fetch and no delay; when the first fails and the second
  succeeds it returns the second response after the single delay 500; when the first two
  fail and the third succeeds it returns the third response after exactly the two delays
  500 and 1000; when all three fail it throws the failure of the third attempt, again after
  exactly the two delays 500 and 1000 (one less than the number of attempts).
\<close>

theorem fetchWithRetry_default:
  fixes w :: world and url :: string
  defines "k \<equiv> count_list (fetched w) url"
  defines "a1 \<equiv> attempt (network w url k)"
    and "a2 \<equiv> attempt (network w url (k + 1))"
    and "a3 \<equiv> attempt (network w url (k + 2))"
  shows
    "(\<forall>r. a1 = Inr r \<longrightarrow>
        fetchWithRetry url RETRY_ATTEMPTS RETRY_DELAY_MS w =
          (Inr r, w\<lparr>fetched := fetched w @ [url]\<rparr>))
     \<and> (\<forall>e1 r. a1 = Inl e1 \<and> a2 = Inr r \<longrightarrow>
        fetchWithRetry url RETRY_ATTEMPTS RETRY_DELAY_MS w =
          (Inr r, w\<lparr>fetched := fetched w @ [url, url], slept := slept w @ [500]\<rparr>))
     \<and> (\<forall>e1 e2 r. a1 = Inl e1 \<and> a2 = Inl e2 \<and> a3 = Inr r \<longrightarrow>
        fetchWithRetry url RETRY_ATTEMPTS RETRY_DELAY_MS w =
          (Inr r, w\<lparr>fetched := fetched w @ [url, url, url], slept := slept w @ [500, 1000]\<rparr>))
     \<and> (\<forall>e1 e2 e3. a1 = Inl e1 \<and> a2 = Inl e2 \<and> a3 = Inl e3 \<longrightarrow>
        fetchWithRetry url RETRY_ATTEMPTS RETRY_DELAY_MS w =
          (Inl e3, w\<lparr>fetched := fetched w @ [url, url, url], slept := slept w @ [500, 1000]\<rparr>))"
proof -
  let ?w1 = "w\<lparr>fetched := fetched w @ [url], slept := slept w @ [500]\<rparr>"
  let ?w2 = "?w1\<lparr>fetched := fetched ?w1 @ [url], slept := slept ?w1 @ [1000]\<rparr>"
  have k1: "count_list (fetched ?w1) url = k + 1"
    by (simp add: k_def)
  have k2: "count_list (fetched ?w2) url = k + 2"
    by (simp add: k_def)
  have step1: "fetchWithRetry url 3 500 w = fetchWithRetry url 2 1000 ?w1" if "a1 = Inl e" for e
    using fetchWithRetry_retry [of w url e 3 500] that by (simp add: a1_def k_def)
  have step2: "fetchWithRetry url 2 1000 ?w1 = fetchWithRetry url 1 2000 ?w2" if "a2 = Inl e" for e
    using fetchWithRetry_retry [of ?w1 url e 2 1000] that k1 by (simp add: a2_def)
  have first: "fetchWithRetry url 3 500 w = (Inr r, w\<lparr>fetched := fetched w @ [url]\<rparr>)"
    if "a1 = Inr r" for r
    using fetchWithRetry_success [of w url r 3 500] that by (simp add: a1_def k_def)
  have second: "fetchWithRetry url 2 1000 ?w1 = (Inr r, ?w1\<lparr>fetched := fetched ?w1 @ [url]\<rparr>)"
    if "a2 = Inr r" for r
    using fetchWithRetry_success [of ?w1 url r 2 1000] that k1 by (simp add: a2_def)
  have third: "fetchWithRetry url 1 2000 ?w2 = (Inr r, ?w2\<lparr>fetched := fetched ?w2 @ [url]\<rparr>)"
    if "a3 = Inr r" for r
    using fetchWithRetry_success [of ?w2 url r 1 2000] that k2 by (simp add: a3_def)
  have last: "fetchWithRetry url 1 2000 ?w2 = (Inl e, ?w2\<lparr>fetched := fetched ?w2 @ [url]\<rparr>)"
    if "a3 = Inl e" for e
    using fetchWithRetry_last_failure [of ?w2 url e 1 2000] that k2 by (simp add: a3_def)
  show ?thesis
    unfolding RETRY_ATTEMPTS_def RETRY_DELAY_MS_def
    using first step1 step2 second third last by simp
qed


theorem fetchWithRetry_default_witness:
  "fetchWithRetry ''u'' RETRY_ATTEMPTS RETRY_DELAY_MS (flaky_world 2) =
     (Inr page_response, (flaky_world 2)\<lparr>fetched := [''u'', ''u'', ''u'']\<rparr>)
   \<and> fetchWithRetry ''u'' RETRY_ATTEMPTS RETRY_DELAY_MS (flaky_world 1) =
     (Inr page_response, (flaky_world 1)\<lparr>fetched := [''u'', ''u'', ''u''], slept := [500]\<rparr>)
   \<and> fetchWithRetry ''u'' RETRY_ATTEMPTS RETRY_DELAY_MS (flaky_world 0) =
     (Inr page_response, (flaky_world 0)\<lparr>fetched := [''u'', ''u'', ''u''], slept := [500, 1000]\<rparr>)
   \<and> fetchWithRetry ''u'' RETRY_ATTEMPTS RETRY_DELAY_MS (flaky_world 3) =
     (Inl (Error ''HTTP error 503: Service Unavailable''),
      (flaky_world 3)\<lparr>fetched := [''u'', ''u'', ''u'', ''u'', ''u'', ''u''], slept := [500, 1000]\<rparr>)"
proof -
  have digits: "string_of_nat 503 = ''503''"
    by (simp add: string_of_nat.simps digit_char_def)
  have count: "count_list (replicate k ''u'') ''u'' = k" for k
    by (induction k) simp_all
  show ?thesis
    using fetchWithRetry_default [of "flaky_world 2" "''u''"]
      fetchWithRetry_default [of "flaky_world 1" "''u''"]
      fetchWithRetry_default [of "flaky_world 0" "''u''"]
      fetchWithRetry_default [of "flaky_world 3" "''u''"]
    by (simp add: flaky_world_def flaky_network_def attempt_def page_response_def digits count
        numeral_3_eq_3 numeral_2_eq_2)
qed

section \<open>Properties of the resource cache\<close>

text \<open>
  What the fetcher does to the world: it fetches its URL at least once, and touches
  neither the cache nor the network nor the console.
\<close>

lemma fetchWithRetry_cache:
  "resourceCache (snd (fetchWithRetry url retries delay w)) = resourceCache w
   \<and> network (snd (fetchWithRetry url retries delay w)) = network w
   \<and> console (snd (fetchWithRetry url retries delay w)) = console w"
proof (induction url retries delay w rule: fetchWithRetry.induct)
  case (1 url retries delay w)
  show ?case
    using "1.IH"
    by (subst (1 2 3) fetchWithRetry.simps) (auto simp: fetch_def setTimeout_def split: sum.splits)
qed

lemma fetchWithRetry_fetched:
  "\<exists>n. fetched (snd (fetchWithRetry url retries delay w)) = fetched w @ replicate (Suc n) url"
proof (induction url retries delay w rule: fetchWithRetry.induct)
  case (1 url retries delay w)
  let ?w1 = "w\<lparr>fetched := fetched w @ [url]\<rparr>"
  show ?case
  proof (cases "attempt (network w url (count_list (fetched w) url))")
    case (Inr r)
    then show ?thesis
      by (subst fetchWithRetry.simps) (auto simp: fetch_def intro: exI [of _ 0])
  next
    case (Inl e)
    show ?thesis
    proof (cases "retries \<le> 1")
      case True
      then show ?thesis using Inl
        by (subst fetchWithRetry.simps) (auto simp: fetch_def intro: exI [of _ 0])
    next
      case False
      have "\<exists>n. fetched (snd (fetchWithRetry url (retries - 1) (delay * 2) (setTimeout delay ?w1)))
        = fetched (setTimeout delay ?w1) @ replicate (Suc n) url"
        using "1.IH" Inl False by (simp add: fetch_def)
      then obtain n where "fetched (snd (fetchWithRetry url (retries - 1) (delay * 2) (setTimeout delay ?w1)))
        = fetched w @ replicate (Suc (Suc n)) url"
        by (auto simp: setTimeout_def simp flip: replicate_append_same)
      moreover have "fetchWithRetry url retries delay w =
          fetchWithRetry url (retries - 1) (delay * 2) (setTimeout delay ?w1)"
        using Inl False by (subst fetchWithRetry.simps) (simp add: fetch_def)
      ultimately show ?thesis
        by (intro exI [of _ "Suc n"]) simp
    qed
  qed
qed

lemma fetch_text_world:
  "resourceCache (snd (fetch_text url w)) = resourceCache w"
  "network (snd (fetch_text url w)) = network w"
  "\<exists>n. fetched (snd (fetch_text url w)) = fetched w @ replicate (Suc n) url"
  using fetchWithRetry_cache [of url RETRY_ATTEMPTS RETRY_DELAY_MS w]
    fetchWithRetry_fetched [of url RETRY_ATTEMPTS RETRY_DELAY_MS w]
  by (auto simp: fetch_text_def split: prod.splits sum.splits)

lemma parseBlocksFromPage_cache:
  "resourceCache (snd (parseBlocksFromPage load url w)) = resourceCache w"
  using fetchWithRetry_cache [of url RETRY_ATTEMPTS RETRY_DELAY_MS w]
  by (auto simp: parseBlocksFromPage_def console_error_def Let_def split: prod.splits sum.splits)

lemma settle_all_cache:
  "(\<And>t v. t \<in> set ts \<Longrightarrow> resourceCache (snd (t v)) = resourceCache v) \<Longrightarrow>
   resourceCache (snd (settle_all ts w)) = resourceCache w"
proof (induction ts arbitrary: w)
  case Nil
  then show ?case by simp
next
  case (Cons t ts)
  obtain r w1 where t: "t w = (r, w1)" by (cases "t w")
  have "resourceCache w1 = resourceCache w"
    using Cons.prems [of t w] t by simp
  moreover have "resourceCache (snd (settle_all ts w1)) = resourceCache w1"
    using Cons.IH [of w1] Cons.prems by simp
  ultimately show ?case using t by (cases "settle_all ts w1") simp
qed

lemma all_or_first_error_isl:
  "isl (all_or_first_error rs) = (\<exists>r \<in> set rs. isl r)"
proof (induction rs)
  case Nil
  then show ?case by simp
next
  case (Cons r rs)
  then show ?case
    by (cases r) (auto split: sum.splits)
qed

lemma all_or_first_error_Inr:
  "all_or_first_error rs = Inr xs \<Longrightarrow> rs = map Inr xs"
proof (induction rs arbitrary: xs)
  case Nil
  then show ?case by simp
next
  case (Cons r rs)
  then show ?case
    by (cases r) (auto split: sum.splits)
qed

lemma cache_all_other:
  "resourceCache (cache_all ds w) = resourceCache w ++ map_of (rev (map (\<lambda>d. (name d, d)) ds))"
  "fetched (cache_all ds w) = fetched w"
  "slept (cache_all ds w) = slept w"
  "network (cache_all ds w) = network w"
  "console (cache_all ds w) = console w"
  by (induction ds arbitrary: w) (auto simp: map_add_def fun_eq_iff split: option.splits)


lemma fetchAndCache_failure:
  "fetchAndCache key fetchFn transformFn w = (Inl e, w') \<Longrightarrow> w' = snd (fetchFn w)"
  by (auto simp: fetchAndCache_def split: prod.splits sum.splits)

lemma fetchAndCache_success:
  "fetchAndCache key fetchFn transformFn w = (Inr ds, w') \<Longrightarrow>
   \<exists>raw. fetchFn w = (Inr raw, snd (fetchFn w)) \<and> transformFn raw = Inr ds
     \<and> w' = cache_all ds (snd (fetchFn w))"
  by (auto simp: fetchAndCache_def split: prod.splits sum.splits)

lemma BLOCK_PAGES_valid:
  "url \<in> set BLOCK_PAGES \<Longrightarrow> url \<noteq> [] \<and> startsWith url ''https://''"
  by (auto simp: BLOCK_PAGES_def BASE_URL_def startsWith_def)

lemma parseBlocksFromPage_fetched:
  "url \<noteq> [] \<Longrightarrow> startsWith url ''https://'' \<Longrightarrow>
   \<exists>n. fetched (snd (parseBlocksFromPage load url w)) = fetched w @ replicate (Suc n) url"
  using fetchWithRetry_fetched [of url RETRY_ATTEMPTS RETRY_DELAY_MS w]
  by (auto simp: parseBlocksFromPage_def console_error_def Let_def split: prod.splits sum.splits)

lemma parseBlocksFromPage_network:
  "network (snd (parseBlocksFromPage load url w)) = network w"
  using fetchWithRetry_cache [of url RETRY_ATTEMPTS RETRY_DELAY_MS w]
  by (auto simp: parseBlocksFromPage_def console_error_def Let_def split: prod.splits sum.splits)

text \<open>The two page tasks of \<^verbatim>\<open>fetchAndCacheBlocks\<close>, one after the other.\<close>

lemma settle_block_pages:
  assumes "parseBlocksFromPage load (BLOCK_PAGES ! 0) w = (r1, wa)"
    and "parseBlocksFromPage load (BLOCK_PAGES ! 1) wa = (r2, wb)"
  shows "settle_all (map (parseBlocksFromPage load) BLOCK_PAGES) w = ([r1, r2], wb)"
  using assms by (simp add: BLOCK_PAGES_def)

lemma fetchAndCacheBlocks_pages:
  assumes "parseBlocksFromPage load (BLOCK_PAGES ! 0) w = (r1, wa)"
    and "parseBlocksFromPage load (BLOCK_PAGES ! 1) wa = (r2, wb)"
  shows "fetchAndCacheBlocks load w =
    (case all_or_first_error [r1, r2] of
       Inl e \<Rightarrow> (Inl (Error (''Failed to fetch and transform data for key '' @ [squote]
                     @ ''blocks'' @ [squote] @ '': '' @ message e)), wb)
     | Inr pages \<Rightarrow> (Inr (transformBlocks pages), cache_all (transformBlocks pages) wb))"
  using settle_block_pages [OF assms]
  by (simp add: fetchAndCacheBlocks_def fetchAndCache_def promise_all_def split: sum.splits)

lemma fetchAndCacheBlocks_fetched:
  "\<exists>n more. fetched (snd (fetchAndCacheBlocks load w)) =
     fetched w @ replicate (Suc n) (BLOCK_PAGES ! 0) @ more"
proof -
  obtain r1 wa where a: "parseBlocksFromPage load (BLOCK_PAGES ! 0) w = (r1, wa)"
    by (cases "parseBlocksFromPage load (BLOCK_PAGES ! 0) w")
  obtain r2 wb where b: "parseBlocksFromPage load (BLOCK_PAGES ! 1) wa = (r2, wb)"
    by (cases "parseBlocksFromPage load (BLOCK_PAGES ! 1) wa")
  have v: "BLOCK_PAGES ! 0 \<in> set BLOCK_PAGES" "BLOCK_PAGES ! 1 \<in> set BLOCK_PAGES"
    by (simp_all add: BLOCK_PAGES_def)
  obtain n where n: "fetched wa = fetched w @ replicate (Suc n) (BLOCK_PAGES ! 0)"
    using parseBlocksFromPage_fetched [of "BLOCK_PAGES ! 0" load w] BLOCK_PAGES_valid [OF v(1)] a
    by auto
  obtain m where m: "fetched wb = fetched wa @ replicate (Suc m) (BLOCK_PAGES ! 1)"
    using parseBlocksFromPage_fetched [of "BLOCK_PAGES ! 1" load wa] BLOCK_PAGES_valid [OF v(2)] b
    by auto
  have "fetched (snd (fetchAndCacheBlocks load w)) = fetched wb"
    unfolding fetchAndCacheBlocks_pages [OF a b]
    by (simp add: cache_all_other split: sum.splits)
  then show ?thesis using n m by (metis append.assoc)
qed

lemma fetchAndCacheBlocks_failure:
  "fetchAndCacheBlocks load w = (Inl e, w') \<Longrightarrow> resourceCache w' = resourceCache w"
proof -
  assume f: "fetchAndCacheBlocks load w = (Inl e, w')"
  have "w' = snd (promise_all (map (parseBlocksFromPage load) BLOCK_PAGES) w)"
    using fetchAndCache_failure f unfolding fetchAndCacheBlocks_def by blast
  moreover have "resourceCache (snd (settle_all (map (parseBlocksFromPage load) BLOCK_PAGES) w))
      = resourceCache w"
    by (rule settle_all_cache) (auto simp: parseBlocksFromPage_cache)
  ultimately show ?thesis
    by (simp add: promise_all_def split: prod.splits)
qed

lemma fetchAndCacheComponentData_failure:
  "fetchAndCacheComponentData component w = (Inl e, w') \<Longrightarrow> resourceCache w' = resourceCache w"
proof -
  assume f: "fetchAndCacheComponentData component w = (Inl e, w')"
  let ?run = "fetchAndCache component (fetch_text (component_url component))
                     (\<lambda>mdxContent. Inr (transformComponentData component mdxContent)) w"
  show ?thesis
  proof (cases "component = [] \<or> filter is_name_char component \<noteq> component")
    case True
    then show ?thesis using f by (auto simp: fetchAndCacheComponentData_def split: if_splits)
  next
    case False
    then have miss: "resourceCache w component = None"
      using f by (auto simp: fetchAndCacheComponentData_def split: option.splits)
    obtain r w1 where run: "?run = (r, w1)" by (cases ?run)
    show ?thesis
    proof (cases r)
      case (Inl e1)
      then have "w' = w1" using f False miss run
        by (simp add: fetchAndCacheComponentData_def)
      moreover have "w1 = snd (fetch_text (component_url component) w)"
        using fetchAndCache_failure run Inl by blast
      ultimately show ?thesis by (simp add: fetch_text_world)
    next
      case (Inr ds)
      have "\<exists>raw. ds = transformComponentData component raw"
        using fetchAndCache_success run Inr by blast
      then have "ds \<noteq> []" by (auto simp: transformComponentData_def Let_def)
      then show ?thesis using f False miss run Inr
        by (cases ds) (simp_all add: fetchAndCacheComponentData_def)
    qed
  qed
qed


lemma fetchAndCacheComponentData_miss_fetches:
  assumes "component \<noteq> []" "filter is_name_char component = component"
    and "resourceCache w component = None"
  shows "\<exists>n. fetched (snd (fetchAndCacheComponentData component w)) =
           fetched w @ replicate (Suc n) (component_url component)"
proof -
  let ?fetchFn = "fetch_text (component_url component)"
  let ?run = "fetchAndCache component ?fetchFn
                (\<lambda>mdxContent. Inr (transformComponentData component mdxContent)) w"
  have "fetched (snd ?run) = fetched (snd (?fetchFn w))"
    by (cases "?fetchFn w") (auto simp: fetchAndCache_def cache_all_other split: sum.splits)
  moreover have "snd (fetchAndCacheComponentData component w) = snd ?run"
    using assms
    by (cases ?run) (auto simp: fetchAndCacheComponentData_def split: sum.splits list.splits)
  ultimately show ?thesis
    using fetch_text_world(3) [of "component_url component" w] by simp
qed

lemma getBlockData_failure:
  assumes "getBlockData load block w = (Inl e, w')"
  shows "resourceCache w block = None \<and> block \<noteq> [] \<and> fetchAndCacheBlocks load w = (Inl e, w')"
  using assms
  by (cases "fetchAndCacheBlocks load w")
    (auto simp: getBlockData_def split: if_splits option.splits sum.splits)

lemma getBlockData_miss_fetches:
  assumes "block \<noteq> []" "resourceCache w block = None"
  shows "snd (getBlockData load block w) = snd (fetchAndCacheBlocks load w)"
  using assms
  by (cases "fetchAndCacheBlocks load w")
    (auto simp: getBlockData_def split: option.splits sum.splits)

text \<open>
  Claim C7. When \<^verbatim>\<open>fetchAndCache\<close> throws, because the fetch function or the transform
  has thrown, the world is exactly the one the fetch function left: nothing was stored.
  When \<^verbatim>\<open>cacheResource\<close> throws, its cache is the one it was given. So when the lookup
  of a component name throws, the resource cache is unchanged; for a well-formed name it
  holds no entry for that name, and the next lookup of the name fetches the component
  document again. The same holds for the lookup of a block name, whose next lookup
  fetches the first block page again.
\<close>

theorem failed_lookup_leaves_cache:
  "(fetchAndCache key fetchFn transformFn w = (Inl e, w') \<longrightarrow> w' = snd (fetchFn w))
   \<and> (cacheResource key fetchFn2 cache w = ((Inl e, cache'), w') \<longrightarrow> cache' = cache)
   \<and> (fetchAndCacheComponentData component w = (Inl e, w') \<longrightarrow>
        resourceCache w' = resourceCache w
        \<and> (component \<noteq> [] \<and> filter is_name_char component = component \<longrightarrow>
             resourceCache w' component = None
             \<and> (\<exists>n. fetched (snd (fetchAndCacheComponentData component w')) =
                      fetched w' @ replicate (Suc n) (component_url component))))
   \<and> (getBlockData load block w = (Inl e, w') \<longrightarrow>
        resourceCache w' = resourceCache w \<and> resourceCache w' block = None
        \<and> (\<exists>n more. fetched (snd (getBlockData load block w')) =
                 fetched w' @ replicate (Suc n) (BLOCK_PAGES ! 0) @ more))"
proof (intro conjI impI)
  assume "fetchAndCache key fetchFn transformFn w = (Inl e, w')"
  then show "w' = snd (fetchFn w)" by (rule fetchAndCache_failure)
next
  assume "cacheResource key fetchFn2 cache w = ((Inl e, cache'), w')"
  then show "cache' = cache"
    by (auto simp: cacheResource_def split: option.splits prod.splits sum.splits)
next
  assume f: "fetchAndCacheComponentData component w = (Inl e, w')"
  then show same: "resourceCache w' = resourceCache w"
    by (rule fetchAndCacheComponentData_failure)
  assume valid: "component \<noteq> [] \<and> filter is_name_char component = component"
  then have "resourceCache w component = None"
    using f by (auto simp: fetchAndCacheComponentData_def split: option.splits)
  then show miss: "resourceCache w' component = None" using same by simp
  show "\<exists>n. fetched (snd (fetchAndCacheComponentData component w')) =
          fetched w' @ replicate (Suc n) (component_url component)"
    using fetchAndCacheComponentData_miss_fetches valid miss by blast
next
  assume f: "getBlockData load block w = (Inl e, w')"
  note g = getBlockData_failure [OF f]
  show same: "resourceCache w' = resourceCache w"
    using g fetchAndCacheBlocks_failure by blast
  show miss: "resourceCache w' block = None" using g same by simp
  show "\<exists>n more. fetched (snd (getBlockData load block w')) =
          fetched w' @ replicate (Suc n) (BLOCK_PAGES ! 0) @ more"
    using getBlockData_miss_fetches [of block w' load] g miss
      fetchAndCacheBlocks_fetched [of load w'] by simp
qed

lemma offline_fetch:
  "fetchWithRetry url RETRY_ATTEMPTS RETRY_DELAY_MS offline_world =
   (Inl (Error ''fetch failed''),
    offline_world\<lparr>fetched := [url, url, url], slept := [500, 1000]\<rparr>)"
  using fetchWithRetry_general [of 2 3 offline_world url 500]
  by (simp add: RETRY_ATTEMPTS_def RETRY_DELAY_MS_def offline_world_def attempt_def
      numeral_2_eq_2 numeral_3_eq_3)

theorem failed_lookup_leaves_cache_witness:
  "fetchAndCacheComponentData ''button'' offline_world =
     (Inl (Error (''Failed to fetch and transform data for key '' @ [squote] @ ''button''
        @ [squote] @ '': fetch failed'')),
      offline_world\<lparr>fetched := replicate 3 (component_url ''button''), slept := [500, 1000]\<rparr>)
   \<and> ''button'' \<noteq> [] \<and> filter is_name_char ''button'' = ''button''
   \<and> resourceCache
        (offline_world\<lparr>fetched := replicate 3 (component_url ''button''), slept := [500, 1000]\<rparr>)
        ''button'' = None
   \<and> (\<exists>n. fetched (snd (fetchAndCacheComponentData ''button''
          (offline_world\<lparr>fetched := replicate 3 (component_url ''button''),
             slept := [500, 1000]\<rparr>))) =
        replicate 3 (component_url ''button'') @ replicate (Suc n) (component_url ''button''))"
proof -
  let ?w1 = "offline_world\<lparr>fetched := replicate 3 (component_url ''button''), slept := [500, 1000]\<rparr>"
  let ?e = "Error (''Failed to fetch and transform data for key '' @ [squote] @ ''button''
        @ [squote] @ '': fetch failed'')"
  have cache: "resourceCache offline_world = Map.empty"
    by (simp add: offline_world_def)
  have valid: "''button'' \<noteq> [] \<and> filter is_name_char ''button'' = ''button''"
    by (simp add: is_name_char_def)
  have run: "fetchAndCacheComponentData ''button'' offline_world = (Inl ?e, ?w1)"
    by (simp add: fetchAndCacheComponentData_def is_name_char_def fetchAndCache_def
        fetch_text_def numeral_3_eq_3 cache offline_fetch)
  show ?thesis
    using failed_lookup_leaves_cache [where component = "''button''" and w = offline_world
        and e = ?e and w' = ?w1, THEN conjunct2, THEN conjunct2, THEN conjunct1]
      run valid
    by simp
qed

text \<open>
  Claim C9. The block listing fetches and parses its two configured pages. When either
  page fails, the whole operation throws and the resource cache is left as it was; it
  returns a list only when both pages succeeded, and then the list is made from all the
  blocks of both pages.
\<close>

theorem block_pages_all_or_nothing:
  assumes "parseBlocksFromPage load (BLOCK_PAGES ! 0) w = (r1, wa)"
    and "parseBlocksFromPage load (BLOCK_PAGES ! 1) wa = (r2, wb)"
  shows "length BLOCK_PAGES = 2
    \<and> (isl r1 \<or> isl r2 \<longrightarrow>
         (\<exists>e. fetchAndCacheBlocks load w = (Inl e, wb)) \<and> resourceCache wb = resourceCache w)
    \<and> (\<forall>ds w'. fetchAndCacheBlocks load w = (Inr ds, w') \<longrightarrow>
         (\<exists>b1 b2. r1 = Inr b1 \<and> r2 = Inr b2 \<and> ds = transformBlocks [b1, b2]))"
proof (intro conjI impI allI)
  show "length BLOCK_PAGES = 2" by (simp add: BLOCK_PAGES_def)
next
  assume failed: "isl r1 \<or> isl r2"
  then have "isl (all_or_first_error [r1, r2])"
    by (simp add: all_or_first_error_isl)
  then show "\<exists>e. fetchAndCacheBlocks load w = (Inl e, wb)"
    unfolding fetchAndCacheBlocks_pages [OF assms]
    by (cases "all_or_first_error [r1, r2]") auto
  then show "resourceCache wb = resourceCache w"
    using fetchAndCacheBlocks_failure by blast
next
  fix ds w'
  assume "fetchAndCacheBlocks load w = (Inr ds, w')"
  then obtain pages where p: "all_or_first_error [r1, r2] = Inr pages" "ds = transformBlocks pages"
    unfolding fetchAndCacheBlocks_pages [OF assms]
    by (cases "all_or_first_error [r1, r2]") auto
  have "[r1, r2] = map Inr pages"
    using all_or_first_error_Inr p(1) by blast
  then obtain b1 b2 where "pages = [b1, b2]" "r1 = Inr b1" "r2 = Inr b2"
    by (cases pages; cases "tl pages") auto
  then show "\<exists>b1 b2. r1 = Inr b1 \<and> r2 = Inr b2 \<and> ds = transformBlocks [b1, b2]"
    using p(2) by simp
qed


lemma auth_down_pages:
  "parseBlocksFromPage example_load (BLOCK_PAGES ! 0) auth_down_world =
     (Inr (scrape_blocks example_page),
      auth_down_world\<lparr>fetched := [BASE_URL @ ''/blocks/sidebar'']\<rparr>)"
  "parseBlocksFromPage example_load (BLOCK_PAGES ! 1)
       (auth_down_world\<lparr>fetched := [BASE_URL @ ''/blocks/sidebar'']\<rparr>) =
     (Inl (Error (''Failed to parse blocks from '' @ (BASE_URL @ ''/blocks/authentication'')
             @ '': fetch failed'')),
      auth_down_world\<lparr>fetched := [BASE_URL @ ''/blocks/sidebar'',
          BASE_URL @ ''/blocks/authentication'', BASE_URL @ ''/blocks/authentication'',
          BASE_URL @ ''/blocks/authentication''], slept := [500, 1000]\<rparr>)"
proof -
  let ?p0 = "BASE_URL @ ''/blocks/sidebar''" and ?p1 = "BASE_URL @ ''/blocks/authentication''"
  let ?wa = "auth_down_world\<lparr>fetched := [?p0]\<rparr>"
  have differ: "?p0 \<noteq> ?p1" by simp
  have blocks: "scrape_blocks example_page \<noteq> []"
    by code_simp
  have "fetchWithRetry ?p0 RETRY_ATTEMPTS RETRY_DELAY_MS auth_down_world =
      (Inr \<lparr>ok = True, status = 200, statusText = ''OK'', body = Inr ''<html>''\<rparr>, ?wa)"
    using fetchWithRetry_success [of auth_down_world ?p0 _ RETRY_ATTEMPTS RETRY_DELAY_MS]
    by (simp add: auth_down_world_def attempt_def)
  then show "parseBlocksFromPage example_load (BLOCK_PAGES ! 0) auth_down_world =
     (Inr (scrape_blocks example_page), ?wa)"
    using blocks
    by (simp add: parseBlocksFromPage_def BLOCK_PAGES_def startsWith_def BASE_URL_def
        example_load_def)
  have "fetchWithRetry ?p1 RETRY_ATTEMPTS RETRY_DELAY_MS ?wa =
      (Inl (Error ''fetch failed''),
       ?wa\<lparr>fetched := fetched ?wa @ replicate 3 ?p1, slept := slept ?wa @ [500, 1000]\<rparr>)"
    using fetchWithRetry_general [of 2 3 ?wa ?p1 500]
    by (simp add: RETRY_ATTEMPTS_def RETRY_DELAY_MS_def auth_down_world_def attempt_def
        numeral_2_eq_2 numeral_3_eq_3)
  then show "parseBlocksFromPage example_load (BLOCK_PAGES ! 1) ?wa =
     (Inl (Error (''Failed to parse blocks from '' @ ?p1 @ '': fetch failed'')),
      auth_down_world\<lparr>fetched := [?p0, ?p1, ?p1, ?p1], slept := [500, 1000]\<rparr>)"
    by (simp add: parseBlocksFromPage_def BLOCK_PAGES_def startsWith_def BASE_URL_def
        numeral_3_eq_3) (simp add: auth_down_world_def)
qed

theorem block_pages_all_or_nothing_witness:
  "parseBlocksFromPage example_load (BLOCK_PAGES ! 0) auth_down_world =
     (Inr (scrape_blocks example_page),
      auth_down_world\<lparr>fetched := [BASE_URL @ ''/blocks/sidebar'']\<rparr>)
   \<and> isl (fst (parseBlocksFromPage example_load (BLOCK_PAGES ! 1)
       (auth_down_world\<lparr>fetched := [BASE_URL @ ''/blocks/sidebar'']\<rparr>)))
   \<and> isl (fst (fetchAndCacheBlocks example_load auth_down_world))
   \<and> resourceCache (snd (fetchAndCacheBlocks example_load auth_down_world)) = Map.empty"
proof -
  have "resourceCache auth_down_world = Map.empty"
    by (simp add: auth_down_world_def)
  then show ?thesis
    using block_pages_all_or_nothing [OF auth_down_pages] auth_down_pages
    by auto
qed

section \<open>Properties of the HTML scraper\<close>

lemma map_filter_member:
  "y \<in> set (List.map_filter f xs) \<Longrightarrow> \<exists>x \<in> set xs. f x = Some y"
  by (auto simp: List.map_filter_def)

text \<open>What the block scraper does check: the id is there, is not empty and does not
  carry the prefix of the UI toolkit.\<close>

lemma scrape_blocks_names:
  "b \<in> set (scrape_blocks roots) \<Longrightarrow>
   block_name b \<noteq> [] \<and> \<not> startsWith (block_name b) ''radix-''"
proof -
  assume "b \<in> set (scrape_blocks roots)"
  then obtain el where "block_of_element el = Some b"
    unfolding scrape_blocks_def using map_filter_member by fastforce
  then show ?thesis
    by (auto simp: block_of_element_def split: option.splits if_splits)
qed

text \<open>The earlier scraper keeps complete blocks only.\<close>

lemma parsers_blocks_complete:
  "b \<in> set (parsers_scrape_blocks roots) \<Longrightarrow>
   parsers_name b \<noteq> [] \<and> parsers_command b \<noteq> [] \<and> parsers_code b \<noteq> []"
proof -
  assume "b \<in> set (parsers_scrape_blocks roots)"
  then obtain el where "parsers_block_of_element el = Some b"
    unfolding parsers_scrape_blocks_def using map_filter_member by fastforce
  then show ?thesis
    by (auto simp: parsers_block_of_element_def Let_def split: if_splits)
qed

lemma example_blocks:
  "scrape_blocks example_page =
     [\<lparr>block_name = ''sidebar-01'', block_command = ''npx shadcn@latest add sidebar-01'',
       block_doc = ''export default function Page() {}'',
       block_description = Some ''A simple sidebar''\<rparr>,
      \<lparr>block_name = ''bare'', block_command = [], block_doc = [],
       block_description = Some []\<rparr>]"
  by code_simp

text \<open>The leftmost compound of a selector given to \<^verbatim>\<open>find\<close> may be the element itself.\<close>

lemma toolbar_block_label:
  "block_of_element toolbar_block =
     Some \<lparr>block_name = ''login-01'', block_command = [], block_doc = [],
           block_description = Some ''A login form''\<rparr>"
  by code_simp

text \<open>
  Claim C4, at a page whose container holds an element with an id and neither a command
  nor a code sample: the block scraper returns a block for it, with the empty command and
  the empty code sample (the element with the toolkit's prefix is skipped).
\<close>

theorem block_without_command_is_returned:
  "parseBlocksFromPage example_load (BASE_URL @ ''/blocks/sidebar'') auth_down_world =
     (Inr [\<lparr>block_name = ''sidebar-01'', block_command = ''npx shadcn@latest add sidebar-01'',
            block_doc = ''export default function Page() {}'',
            block_description = Some ''A simple sidebar''\<rparr>,
           \<lparr>block_name = ''bare'', block_command = [], block_doc = [],
            block_description = Some []\<rparr>],
      auth_down_world\<lparr>fetched := [BASE_URL @ ''/blocks/sidebar'']\<rparr>)"
  using auth_down_pages(1) by (simp add: example_blocks BLOCK_PAGES_def)

section \<open>Properties of the tool handlers\<close>

lemma button_resource:
  "transformComponentData ''button'' button_mdx =
    [\<lparr>name = ''button'', description = Some [], doc = Some button_mdx,
      commands = Some [\<lparr>npm = ''npx shadcn@latest add button'',
                        pnpm = ''pnpm dlx shadcn@latest add button'',
                        yarn = ''yarn dlx shadcn@latest add button'',
                        bun = ''bunx shadcn@latest add button''\<rparr>],
      links = None, isBlock = Some False\<rparr>]"
  by code_simp

lemma docs_world_fetch:
  "fetchWithRetry url RETRY_ATTEMPTS RETRY_DELAY_MS docs_world =
     (Inr \<lparr>ok = True, status = 200, statusText = ''OK'', body = Inr button_mdx\<rparr>,
      docs_world\<lparr>fetched := [url]\<rparr>)"
  using fetchWithRetry_success [of docs_world url _ RETRY_ATTEMPTS RETRY_DELAY_MS]
  by (simp add: docs_world_def attempt_def)

lemma docs_world_cache: "resourceCache docs_world = Map.empty"
  by (simp add: docs_world_def)

lemma docs_world_button:
  "fetchAndCacheComponentData ''button'' docs_world =
     (Inr (hd (transformComponentData ''button'' button_mdx)),
      docs_world\<lparr>fetched := [component_url ''button''],
        resourceCache := [''button'' \<mapsto> hd (transformComponentData ''button'' button_mdx)]\<rparr>)"
  by (simp add: fetchAndCacheComponentData_def is_name_char_def docs_world_cache
      fetchAndCache_def fetch_text_def docs_world_fetch button_resource)

lemma validateRuntime_empty: "validateRuntime None \<and> validateRuntime (Some [])"
  by (simp add: validateRuntime_def)

lemma select_command_empty_runtime:
  "isError (select_command kind nm (Some []) r) = isError (select_command kind nm None r)
   \<and> (\<not> isError (select_command kind nm None r) \<longrightarrow>
        select_command kind nm (Some []) r = select_command kind nm None r)"
  by (simp add: select_command_def createResponse_def split: option.splits)

lemma select_command_found:
  "first_commands r = Some cs \<Longrightarrow> npm cs \<noteq> [] \<Longrightarrow>
   select_command kind nm (Some []) r = \<lparr>response_text = npm cs, mimeType = None, isError = False\<rparr>
   \<and> select_command kind nm None r = \<lparr>response_text = npm cs, mimeType = None, isError = False\<rparr>"
  by (simp add: select_command_def createResponse_def)

lemma select_command_empty:
  "first_commands r = Some cs \<Longrightarrow> npm cs = [] \<Longrightarrow>
   select_command kind nm (Some []) r =
     \<lparr>response_text = ''No installation command found for runtime '' @ [squote] @ [squote],
      mimeType = None, isError = True\<rparr>
   \<and> select_command kind nm None r =
     \<lparr>response_text = ''No installation command found for runtime '' @ [squote] @ ''undefined''
        @ [squote],
      mimeType = None, isError = True\<rparr>"
  by (simp add: select_command_def createResponse_def template_def)

lemma select_command_same:
  "\<not> (\<exists>cs. first_commands r = Some cs \<and> npm cs = []) \<Longrightarrow>
   select_command kind nm (Some []) r = select_command kind nm None r"
  by (auto simp: select_command_def split: option.splits)

text \<open>
  Claim C8, as stated: every call of install-component whose runtime argument is not one
  of npm, pnpm, yarn and bun returns a validation error without network activity. The
  empty runtime is such an argument, and the call goes on to fetch the document and
  answers with the npm command.
\<close>

theorem installComponent_empty_runtime_fetches:
  "[] \<notin> set [''npm'', ''pnpm'', ''yarn'', ''bun'']
   \<and> fst (installComponent ''button'' (Some []) docs_world) =
       createResponse ''npx shadcn@latest add button'' False None
   \<and> fetched docs_world = []
   \<and> fetched (snd (installComponent ''button'' (Some []) docs_world)) = [component_url ''button'']"
  by (simp add: installComponent_def truthy_def docs_world_button button_resource
      select_command_def first_commands_def) (simp add: docs_world_def)

text \<open>
  Claim C8, amended: every call of install-component whose runtime argument is not empty
  and not one of npm, pnpm, yarn and bun returns an error response and leaves the world
  as it was (no fetch, no delay, no cache entry); for a component name that is not empty
  the response is the invalid-runtime message. A component name with a character outside
  \<^verbatim>\<open>[a-zA-Z0-9-_]\<close> is answered with an error response in the same way, with the
  world left as it was, whatever the runtime.
\<close>

theorem installComponent_validation:
  "(rt \<noteq> [] \<and> rt \<notin> set [''npm'', ''pnpm'', ''yarn'', ''bun''] \<longrightarrow>
      snd (installComponent component (Some rt) w) = w
      \<and> isError (fst (installComponent component (Some rt) w))
      \<and> (component \<noteq> [] \<longrightarrow>
           fst (installComponent component (Some rt) w) =
             createResponse (''Invalid runtime: '' @ rt @ ''. Must be one of: npm, pnpm, yarn, bun'')
               True None))
   \<and> (filter is_name_char component \<noteq> component \<longrightarrow>
      snd (installComponent component runtime w) = w
      \<and> isError (fst (installComponent component runtime w)))"
  by (auto simp: installComponent_def truthy_def validateRuntime_def invalid_runtime_def
      createResponse_def template_def fetchAndCacheComponentData_def handleError_def)

theorem installComponent_validation_witness:
  "''deno'' \<noteq> [] \<and> ''deno'' \<notin> set [''npm'', ''pnpm'', ''yarn'', ''bun'']
   \<and> filter is_name_char ''../etc'' \<noteq> ''../etc''
   \<and> installComponent ''button'' (Some ''deno'') docs_world =
       (createResponse ''Invalid runtime: deno. Must be one of: npm, pnpm, yarn, bun'' True None,
        docs_world)
   \<and> snd (installComponent ''../etc'' None docs_world) = docs_world
   \<and> isError (fst (installComponent ''../etc'' None docs_world))"
proof -
  have a: "''deno'' \<noteq> [] \<and> ''deno'' \<notin> set [''npm'', ''pnpm'', ''yarn'', ''bun'']"
    by simp
  have b: "filter is_name_char ''../etc'' \<noteq> ''../etc''"
    by (simp add: is_name_char_def)
  show ?thesis
    using installComponent_validation [of "''deno''" "''button''" docs_world None]
      installComponent_validation [of "''deno''" "''../etc''" docs_world None] a b
    by (simp add: prod_eq_iff)
qed

text \<open>
  Claim C10, as stated: a call of install-component or install-blocks with the empty
  runtime gives the same result as the call without a runtime. For the block
  \<^verbatim>\<open>bare\<close> of the example page, whose command is empty, both calls answer with an
  error, and the two error texts differ: the message quotes the runtime argument as it was
  given.
\<close>

theorem empty_runtime_error_text:
  "fst (installBlock example_load ''bare'' (Some []) docs_world) =
     \<lparr>response_text = ''No installation command found for runtime '' @ [squote] @ [squote],
      mimeType = None, isError = True\<rparr>
   \<and> fst (installBlock example_load ''bare'' None docs_world) =
     \<lparr>response_text = ''No installation command found for runtime '' @ [squote] @ ''undefined''
        @ [squote],
      mimeType = None, isError = True\<rparr>
   \<and> fst (installBlock example_load ''bare'' (Some []) docs_world) \<noteq>
       fst (installBlock example_load ''bare'' None docs_world)"
  by code_simp

text \<open>
  Claim C10, amended: the runtime validation accepts an absent runtime and the empty
  runtime. install-component and install-blocks called with the empty runtime leave the
  world as the call without a runtime does and raise the error flag in the same cases.
  When the name resolves to a resource whose first command set has an npm command that is
  not empty, both calls answer with exactly that command, without the error flag. When it
  resolves to a resource whose npm command is empty, both calls answer with the error
  \<^verbatim>\<open>No installation command found for runtime\<close>, which quotes the empty text for
  the empty runtime and \<^verbatim>\<open>undefined\<close> for the absent one. In every other case the
  two calls give the very same result.
\<close>

theorem empty_runtime_is_npm:
  "validateRuntime None \<and> validateRuntime (Some [])
   \<and> snd (installComponent component (Some []) w) = snd (installComponent component None w)
   \<and> isError (fst (installComponent component (Some []) w)) =
       isError (fst (installComponent component None w))
   \<and> (\<forall>r cs w'. fetchAndCacheComponentData component w = (Inr r, w') \<and> component \<noteq> []
        \<and> first_commands r = Some cs \<and> npm cs \<noteq> [] \<longrightarrow>
        installComponent component (Some []) w =
          (\<lparr>response_text = npm cs, mimeType = None, isError = False\<rparr>, w')
        \<and> installComponent component None w =
          (\<lparr>response_text = npm cs, mimeType = None, isError = False\<rparr>, w'))
   \<and> (\<forall>r cs w'. fetchAndCacheComponentData component w = (Inr r, w') \<and> component \<noteq> []
        \<and> first_commands r = Some cs \<and> npm cs = [] \<longrightarrow>
        installComponent component (Some []) w =
          (\<lparr>response_text = ''No installation command found for runtime '' @ [squote] @ [squote],
            mimeType = None, isError = True\<rparr>, w')
        \<and> installComponent component None w =
          (\<lparr>response_text = ''No installation command found for runtime '' @ [squote]
              @ ''undefined'' @ [squote],
            mimeType = None, isError = True\<rparr>, w'))
   \<and> (\<not> (\<exists>r cs w'. fetchAndCacheComponentData component w = (Inr r, w') \<and> component \<noteq> []
           \<and> first_commands r = Some cs \<and> npm cs = []) \<longrightarrow>
        installComponent component (Some []) w = installComponent component None w)
   \<and> snd (installBlock load block (Some []) w) = snd (installBlock load block None w)
   \<and> isError (fst (installBlock load block (Some []) w)) =
       isError (fst (installBlock load block None w))
   \<and> (\<forall>r cs w'. getBlockData load block w = (Inr (BlockData r), w')
        \<and> first_commands r = Some cs \<and> npm cs \<noteq> [] \<longrightarrow>
        installBlock load block (Some []) w =
          (\<lparr>response_text = npm cs, mimeType = None, isError = False\<rparr>, w')
        \<and> installBlock load block None w =
          (\<lparr>response_text = npm cs, mimeType = None, isError = False\<rparr>, w'))
   \<and> (\<forall>r cs w'. getBlockData load block w = (Inr (BlockData r), w')
        \<and> first_commands r = Some cs \<and> npm cs = [] \<longrightarrow>
        installBlock load block (Some []) w =
          (\<lparr>response_text = ''No installation command found for runtime '' @ [squote] @ [squote],
            mimeType = None, isError = True\<rparr>, w')
        \<and> installBlock load block None w =
          (\<lparr>response_text = ''No installation command found for runtime '' @ [squote]
              @ ''undefined'' @ [squote],
            mimeType = None, isError = True\<rparr>, w'))
   \<and> (\<not> (\<exists>r cs w'. getBlockData load block w = (Inr (BlockData r), w')
           \<and> first_commands r = Some cs \<and> npm cs = []) \<longrightarrow>
        installBlock load block (Some []) w = installBlock load block None w)"
proof -
  have component:
    "snd (installComponent component (Some []) w) = snd (installComponent component None w)
     \<and> isError (fst (installComponent component (Some []) w)) =
         isError (fst (installComponent component None w))"
    using select_command_empty_runtime [of "''component''" component]
    by (cases "fetchAndCacheComponentData component w")
      (auto simp: installComponent_def truthy_def split: sum.splits)
  have block:
    "snd (installBlock load block (Some []) w) = snd (installBlock load block None w)
     \<and> isError (fst (installBlock load block (Some []) w)) =
         isError (fst (installBlock load block None w))"
    using select_command_empty_runtime [of "''block''" block]
    by (cases "getBlockData load block w")
      (auto simp: installBlock_def truthy_def split: sum.splits block_lookup.splits)
  have found_component:
    "installComponent component (Some []) w =
       (\<lparr>response_text = npm cs, mimeType = None, isError = False\<rparr>, w')
     \<and> installComponent component None w =
       (\<lparr>response_text = npm cs, mimeType = None, isError = False\<rparr>, w')"
    if "fetchAndCacheComponentData component w = (Inr r, w')" "component \<noteq> []"
      "first_commands r = Some cs" "npm cs \<noteq> []" for r cs w'
    using that select_command_found [of r cs "''component''" component]
    by (simp add: installComponent_def truthy_def)
  have empty_component:
    "installComponent component (Some []) w =
       (\<lparr>response_text = ''No installation command found for runtime '' @ [squote] @ [squote],
         mimeType = None, isError = True\<rparr>, w')
     \<and> installComponent component None w =
       (\<lparr>response_text = ''No installation command found for runtime '' @ [squote]
           @ ''undefined'' @ [squote],
         mimeType = None, isError = True\<rparr>, w')"
    if "fetchAndCacheComponentData component w = (Inr r, w')" "component \<noteq> []"
      "first_commands r = Some cs" "npm cs = []" for r cs w'
    using that select_command_empty [of r cs "''component''" component]
    by (simp add: installComponent_def truthy_def)
  have same_component: "installComponent component (Some []) w = installComponent component None w"
    if "\<not> (\<exists>r cs w'. fetchAndCacheComponentData component w = (Inr r, w') \<and> component \<noteq> []
           \<and> first_commands r = Some cs \<and> npm cs = [])"
  proof (cases "fetchAndCacheComponentData component w")
    case (Pair res w')
    show ?thesis
    proof (cases res)
      case (Inl e)
      then show ?thesis using Pair by (simp add: installComponent_def truthy_def)
    next
      case (Inr r)
      show ?thesis
      proof (cases "component = []")
        case True
        then show ?thesis by (simp add: installComponent_def)
      next
        case False
        then have "\<not> (\<exists>cs. first_commands r = Some cs \<and> npm cs = [])"
          using that Pair Inr by blast
        then show ?thesis
          using Pair Inr select_command_same [of r "''component''" component]
          by (simp add: installComponent_def truthy_def)
      qed
    qed
  qed
  have found_block:
    "installBlock load block (Some []) w =
       (\<lparr>response_text = npm cs, mimeType = None, isError = False\<rparr>, w')
     \<and> installBlock load block None w =
       (\<lparr>response_text = npm cs, mimeType = None, isError = False\<rparr>, w')"
    if "getBlockData load block w = (Inr (BlockData r), w')"
      "first_commands r = Some cs" "npm cs \<noteq> []" for r cs w'
    using that select_command_found [of r cs "''block''" block]
    by (simp add: installBlock_def truthy_def)
  have empty_block:
    "installBlock load block (Some []) w =
       (\<lparr>response_text = ''No installation command found for runtime '' @ [squote] @ [squote],
         mimeType = None, isError = True\<rparr>, w')
     \<and> installBlock load block None w =
       (\<lparr>response_text = ''No installation command found for runtime '' @ [squote]
           @ ''undefined'' @ [squote],
         mimeType = None, isError = True\<rparr>, w')"
    if "getBlockData load block w = (Inr (BlockData r), w')"
      "first_commands r = Some cs" "npm cs = []" for r cs w'
    using that select_command_empty [of r cs "''block''" block]
    by (simp add: installBlock_def truthy_def)
  have same_block: "installBlock load block (Some []) w = installBlock load block None w"
    if "\<not> (\<exists>r cs w'. getBlockData load block w = (Inr (BlockData r), w')
           \<and> first_commands r = Some cs \<and> npm cs = [])"
  proof (cases "getBlockData load block w")
    case (Pair res w')
    show ?thesis
    proof (cases res)
      case (Inl e)
      then show ?thesis using Pair by (simp add: installBlock_def truthy_def)
    next
      case (Inr found)
      show ?thesis
      proof (cases found)
        case (BlockError msg)
        then show ?thesis using Pair Inr by (simp add: installBlock_def truthy_def)
      next
        case (BlockData r)
        then have "\<not> (\<exists>cs. first_commands r = Some cs \<and> npm cs = [])"
          using that Pair Inr by blast
        then show ?thesis
          using Pair Inr BlockData select_command_same [of r "''block''" block]
          by (simp add: installBlock_def truthy_def)
      qed
    qed
  qed
  show ?thesis
    using component block found_component empty_component same_component
      found_block empty_block same_block validateRuntime_empty
    by blast
qed

theorem empty_runtime_is_npm_witness:
  "installComponent ''button'' (Some []) docs_world =
     (\<lparr>response_text = ''npx shadcn@latest add button'', mimeType = None, isError = False\<rparr>,
      snd (fetchAndCacheComponentData ''button'' docs_world))
   \<and> installBlock example_load ''sidebar-01'' (Some []) docs_world =
     (\<lparr>response_text = ''npx shadcn@latest add sidebar-01'', mimeType = None, isError = False\<rparr>,
      snd (getBlockData example_load ''sidebar-01'' docs_world))
   \<and> installBlock example_load ''bare'' (Some []) docs_world =
     (\<lparr>response_text = ''No installation command found for runtime '' @ [squote] @ [squote],
       mimeType = None, isError = True\<rparr>,
      snd (getBlockData example_load ''bare'' docs_world))
   \<and> installBlock example_load ''bare'' None docs_world =
     (\<lparr>response_text = ''No installation command found for runtime '' @ [squote] @ ''undefined''
         @ [squote],
       mimeType = None, isError = True\<rparr>,
      snd (getBlockData example_load ''bare'' docs_world))
   \<and> installComponent ''bare'' (Some []) (snd (fetchAndCacheBlocks example_load docs_world)) =
     (\<lparr>response_text = ''No installation command found for runtime '' @ [squote] @ [squote],
       mimeType = None, isError = True\<rparr>,
      snd (fetchAndCacheBlocks example_load docs_world))
   \<and> installComponent ''bare'' None (snd (fetchAndCacheBlocks example_load docs_world)) =
     (\<lparr>response_text = ''No installation command found for runtime '' @ [squote] @ ''undefined''
         @ [squote],
       mimeType = None, isError = True\<rparr>,
      snd (fetchAndCacheBlocks example_load docs_world))
   \<and> installComponent [] (Some []) docs_world = installComponent [] None docs_world
   \<and> installBlock example_load ''nope'' (Some []) docs_world =
       installBlock example_load ''nope'' None docs_world"
proof -
  let ?button = "hd (transformComponentData ''button'' button_mdx)"
  let ?sidebar = "block_resource (hd (scrape_blocks example_page))"
  let ?bare = "block_resource (hd (tl (scrape_blocks example_page)))"
  have b1: "fetchAndCacheComponentData ''button'' docs_world =
      (Inr ?button, snd (fetchAndCacheComponentData ''button'' docs_world))"
    by (simp add: docs_world_button)
  have b2: "first_commands ?button = Some (hd (the (commands ?button)))"
    "npm (hd (the (commands ?button))) = ''npx shadcn@latest add button''"
    by (simp_all add: button_resource first_commands_def)
  have "fst (getBlockData example_load ''sidebar-01'' docs_world) = Inr (BlockData ?sidebar)"
    by code_simp
  then have s1: "getBlockData example_load ''sidebar-01'' docs_world =
      (Inr (BlockData ?sidebar), snd (getBlockData example_load ''sidebar-01'' docs_world))"
    by (simp add: prod_eq_iff)
  have s2: "first_commands ?sidebar = Some (hd (the (commands ?sidebar)))"
    "npm (hd (the (commands ?sidebar))) = ''npx shadcn@latest add sidebar-01''"
    by code_simp+
  have "fst (getBlockData example_load ''bare'' docs_world) = Inr (BlockData ?bare)"
    by code_simp
  then have e1: "getBlockData example_load ''bare'' docs_world =
      (Inr (BlockData ?bare), snd (getBlockData example_load ''bare'' docs_world))"
    by (simp add: prod_eq_iff)
  have e2: "first_commands ?bare = Some (hd (the (commands ?bare)))"
    "npm (hd (the (commands ?bare))) = []"
    by code_simp+
  have "fst (getBlockData example_load ''nope'' docs_world) =
      Inr (BlockError (''Block '' @ [squote] @ ''nope'' @ [squote]
        @ '' not found. Use list-blocks to see available blocks.''))"
    by code_simp
  then have n1: "\<not> (\<exists>r cs w'. getBlockData example_load ''nope'' docs_world = (Inr (BlockData r), w')
      \<and> first_commands r = Some cs \<and> npm cs = [])"
    by auto
  have n2: "\<not> (\<exists>r cs w'. fetchAndCacheComponentData [] docs_world = (Inr r, w') \<and> [] \<noteq> ([] :: string)
      \<and> first_commands r = Some cs \<and> npm cs = [])"
    by simp
  note button = empty_runtime_is_npm [where component = "''button''" and w = docs_world
      and load = example_load and block = "''sidebar-01''"]
  note bare = empty_runtime_is_npm [where component = "[]" and w = docs_world
      and load = example_load and block = "''bare''"]
  note nope = empty_runtime_is_npm [where component = "[]" and w = docs_world
      and load = example_load and block = "''nope''"]
  have ne: "''button'' \<noteq> []" "''bare'' \<noteq> []"
    "npm (hd (the (commands ?button))) \<noteq> []" "npm (hd (the (commands ?sidebar))) \<noteq> []"
    by (simp_all add: b2(2) s2(2))
  have "installComponent ''button'' (Some []) docs_world =
     (\<lparr>response_text = npm (hd (the (commands ?button))), mimeType = None, isError = False\<rparr>,
      snd (fetchAndCacheComponentData ''button'' docs_world))"
    using button b1 b2(1) ne(1,3) by blast
  then have r1: "installComponent ''button'' (Some []) docs_world =
     (\<lparr>response_text = ''npx shadcn@latest add button'', mimeType = None, isError = False\<rparr>,
      snd (fetchAndCacheComponentData ''button'' docs_world))"
    by (simp only: b2(2))
  have "installBlock example_load ''sidebar-01'' (Some []) docs_world =
     (\<lparr>response_text = npm (hd (the (commands ?sidebar))), mimeType = None, isError = False\<rparr>,
      snd (getBlockData example_load ''sidebar-01'' docs_world))"
    using button s1 s2(1) ne(4) by blast
  then have r2: "installBlock example_load ''sidebar-01'' (Some []) docs_world =
     (\<lparr>response_text = ''npx shadcn@latest add sidebar-01'', mimeType = None, isError = False\<rparr>,
      snd (getBlockData example_load ''sidebar-01'' docs_world))"
    by (simp only: s2(2))
  have r3: "installBlock example_load ''bare'' (Some []) docs_world =
     (\<lparr>response_text = ''No installation command found for runtime '' @ [squote] @ [squote],
       mimeType = None, isError = True\<rparr>,
      snd (getBlockData example_load ''bare'' docs_world))
   \<and> installBlock example_load ''bare'' None docs_world =
     (\<lparr>response_text = ''No installation command found for runtime '' @ [squote] @ ''undefined''
         @ [squote],
       mimeType = None, isError = True\<rparr>,
      snd (getBlockData example_load ''bare'' docs_world))"
    using bare e1 e2 by blast
  have r4: "installComponent [] (Some []) docs_world = installComponent [] None docs_world"
    using nope n2 by blast
  have r5: "installBlock example_load ''nope'' (Some []) docs_world =
       installBlock example_load ''nope'' None docs_world"
    using nope n1 by blast
  have "resourceCache (snd (fetchAndCacheBlocks example_load docs_world)) ''bare'' = Some ?bare"
    by code_simp
  then have l1: "fetchAndCacheComponentData ''bare'' (snd (fetchAndCacheBlocks example_load docs_world)) =
      (Inr ?bare, snd (fetchAndCacheBlocks example_load docs_world))"
    by (simp add: fetchAndCacheComponentData_def is_name_char_def)
  have r6: "installComponent ''bare'' (Some []) (snd (fetchAndCacheBlocks example_load docs_world)) =
     (\<lparr>response_text = ''No installation command found for runtime '' @ [squote] @ [squote],
       mimeType = None, isError = True\<rparr>,
      snd (fetchAndCacheBlocks example_load docs_world))
   \<and> installComponent ''bare'' None (snd (fetchAndCacheBlocks example_load docs_world)) =
     (\<lparr>response_text = ''No installation command found for runtime '' @ [squote] @ ''undefined''
         @ [squote],
       mimeType = None, isError = True\<rparr>,
      snd (fetchAndCacheBlocks example_load docs_world))"
    using empty_runtime_is_npm [where component = "''bare''"
        and w = "snd (fetchAndCacheBlocks example_load docs_world)"
        and load = example_load and block = "''bare''"] l1 e2 ne(2)
    by blast
  show ?thesis
    using r1 r2 r3 r4 r5 r6 by blast
qed
section \<open>Cache hits\<close>


lemma fetchAndCacheComponentData_hit:
  "resourceCache w n = Some r \<Longrightarrow> n \<noteq> [] \<Longrightarrow> filter is_name_char n = n \<Longrightarrow>
   fetchAndCacheComponentData n w = (Inr r, w)"
  by (simp add: fetchAndCacheComponentData_def)



















text \<open>
  Components and blocks share the cache, and the specification leaves it to the callers
  that no name is both. Where that fails, the later one takes the place of the earlier: in
  a world where the component document \<^verbatim>\<open>sidebar-01\<close> can be fetched and a block page
  lists a block of that name, the component is resolved and cached, the block listing
  stores the block under the same name, and the next lookup of the component returns the
  block.
\<close>

lemma cached_component_replaced_by_block:
  "fst (fetchAndCacheComponentData ''sidebar-01'' docs_world) =
     Inr \<lparr>name = ''sidebar-01'', description = Some [], doc = Some button_mdx,
          commands = Some [\<lparr>npm = ''npx shadcn@latest add button'',
                            pnpm = ''pnpm dlx shadcn@latest add button'',
                            yarn = ''yarn dlx shadcn@latest add button'',
                            bun = ''bunx shadcn@latest add button''\<rparr>],
          links = None, isBlock = Some False\<rparr>
   \<and> fst (fetchAndCacheComponentData ''sidebar-01''
          (snd (fetchAndCacheBlocks example_load
             (snd (fetchAndCacheComponentData ''sidebar-01'' docs_world))))) =
     Inr \<lparr>name = ''sidebar-01'', description = Some ''A simple sidebar'',
          doc = Some ''export default function Page() {}'',
          commands = Some [\<lparr>npm = ''npx shadcn@latest add sidebar-01'',
                            pnpm = ''pnpm dlx shadcn@latest add sidebar-01'',
                            yarn = ''yarn dlx shadcn@latest add sidebar-01'',
                            bun = ''bunx shadcn@latest add sidebar-01''\<rparr>],
          links = None, isBlock = Some True\<rparr>"
proof -
  let ?r1 = "\<lparr>name = ''sidebar-01'', description = Some [], doc = Some button_mdx,
          commands = Some [\<lparr>npm = ''npx shadcn@latest add button'',
                            pnpm = ''pnpm dlx shadcn@latest add button'',
                            yarn = ''yarn dlx shadcn@latest add button'',
                            bun = ''bunx shadcn@latest add button''\<rparr>],
          links = None, isBlock = Some False\<rparr>"
  let ?r2 = "\<lparr>name = ''sidebar-01'', description = Some ''A simple sidebar'',
          doc = Some ''export default function Page() {}'',
          commands = Some [\<lparr>npm = ''npx shadcn@latest add sidebar-01'',
                            pnpm = ''pnpm dlx shadcn@latest add sidebar-01'',
                            yarn = ''yarn dlx shadcn@latest add sidebar-01'',
                            bun = ''bunx shadcn@latest add sidebar-01''\<rparr>],
          links = None, isBlock = Some True\<rparr>"
  let ?w1 = "docs_world\<lparr>fetched := [component_url ''sidebar-01''],
               resourceCache := [''sidebar-01'' \<mapsto> ?r1]\<rparr>"
  let ?p0 = "BLOCK_PAGES ! 0" and ?p1 = "BLOCK_PAGES ! 1"
  have component: "transformComponentData ''sidebar-01'' button_mdx = [?r1]"
    by code_simp
  have first: "fetchAndCacheComponentData ''sidebar-01'' docs_world = (Inr ?r1, ?w1)"
    by (simp add: fetchAndCacheComponentData_def is_name_char_def docs_world_cache
        fetchAndCache_def fetch_text_def docs_world_fetch component)
  have blocks: "transformBlocks [scrape_blocks example_page, scrape_blocks example_page] =
      [?r2, hd (tl (transformBlocks [scrape_blocks example_page])),
       ?r2, hd (tl (transformBlocks [scrape_blocks example_page]))]"
    by code_simp
  have nonempty: "scrape_blocks example_page \<noteq> []"
    by code_simp
  have other: "name (hd (tl (transformBlocks [scrape_blocks example_page]))) = ''bare''"
    by code_simp
  have fetch: "fetchWithRetry url RETRY_ATTEMPTS RETRY_DELAY_MS (docs_world\<lparr>fetched := log, resourceCache := c\<rparr>) =
      (Inr \<lparr>ok = True, status = 200, statusText = ''OK'', body = Inr button_mdx\<rparr>,
       docs_world\<lparr>fetched := log @ [url], resourceCache := c\<rparr>)" for url log c
    using fetchWithRetry_success [of "docs_world\<lparr>fetched := log, resourceCache := c\<rparr>" url _
        RETRY_ATTEMPTS RETRY_DELAY_MS]
    by (simp add: docs_world_def attempt_def)
  have valid: "?p0 \<noteq> [] \<and> startsWith ?p0 ''https://''" "?p1 \<noteq> [] \<and> startsWith ?p1 ''https://''"
    by (simp_all add: BLOCK_PAGES_def BASE_URL_def startsWith_def)
  have page: "parseBlocksFromPage example_load url (docs_world\<lparr>fetched := log, resourceCache := c\<rparr>) =
      (Inr (scrape_blocks example_page), docs_world\<lparr>fetched := log @ [url], resourceCache := c\<rparr>)"
    if "url \<noteq> [] \<and> startsWith url ''https://''" for url log c
    using that nonempty by (simp add: parseBlocksFromPage_def fetch example_load_def)
  have listing: "fetchAndCacheBlocks example_load ?w1 =
      (Inr (transformBlocks [scrape_blocks example_page, scrape_blocks example_page]),
       cache_all (transformBlocks [scrape_blocks example_page, scrape_blocks example_page])
         (docs_world\<lparr>fetched := [component_url ''sidebar-01''] @ [?p0] @ [?p1],
            resourceCache := [''sidebar-01'' \<mapsto> ?r1]\<rparr>))"
    using fetchAndCacheBlocks_pages
      [OF page [OF valid(1), where log = "[component_url ''sidebar-01'']"
                 and c = "[''sidebar-01'' \<mapsto> ?r1]"]
          page [OF valid(2), where log = "[component_url ''sidebar-01''] @ [?p0]"
                 and c = "[''sidebar-01'' \<mapsto> ?r1]"]]
    by simp
  have "resourceCache (snd (fetchAndCacheBlocks example_load ?w1)) ''sidebar-01'' = Some ?r2"
    by (simp add: listing blocks other)
  then have "fetchAndCacheComponentData ''sidebar-01'' (snd (fetchAndCacheBlocks example_load ?w1)) =
      (Inr ?r2, snd (fetchAndCacheBlocks example_load ?w1))"
    by (rule fetchAndCacheComponentData_hit) (simp_all add: is_name_char_def)
  then show ?thesis
    by (simp add: first)
qed




section \<open>Properties of the component listing\<close>

lemma split_on_nonempty: "split_on c s \<noteq> []"
  by (induction s) (auto split: list.splits)

lemma split_on_no_separator: "c \<notin> set s \<Longrightarrow> split_on c s = [s]"
  by (induction s) auto

lemma split_on_two_segments: "c \<in> set s \<Longrightarrow> 2 \<le> length (split_on c s)"
proof (induction s)
  case Nil
  then show ?case by simp
next
  case (Cons a s)
  show ?case
  proof (cases "a = c")
    case True
    then show ?thesis using split_on_nonempty [of c s] by (cases "split_on c s") auto
  next
    case False
    then have "2 \<le> length (split_on c s)" using Cons by simp
    then show ?thesis using False by (cases "split_on c s") auto
  qed
qed

lemma split_on_last_after: "last (split_on c (pre @ c # seg)) = last (split_on c seg)"
proof (induction pre)
  case Nil
  then show ?case using split_on_nonempty [of c seg] by simp
next
  case (Cons a pre)
  show ?case
  proof (cases "a = c")
    case True
    then show ?thesis using Cons split_on_nonempty [of c "pre @ c # seg"] by simp
  next
    case False
    have "2 \<le> length (split_on c (pre @ c # seg))"
      by (rule split_on_two_segments) simp
    then obtain s1 s2 segs where "split_on c (pre @ c # seg) = s1 # s2 # segs"
      by (cases "split_on c (pre @ c # seg)"; cases "tl (split_on c (pre @ c # seg))") auto
    then show ?thesis using Cons False by simp
  qed
qed

text \<open>The final segment: the text after the last separator.\<close>

lemma final_segment:
  "c \<notin> set seg \<Longrightarrow> last (split_on c (pre @ c # seg)) = seg"
  by (simp add: split_on_last_after split_on_no_separator)

lemma final_segment_takeWhile:
  "last (split_on c s) = rev (takeWhile (\<lambda>x. x \<noteq> c) (rev s))"
proof (cases "c \<in> set s")
  case False
  then have tw: "takeWhile (\<lambda>x. x \<noteq> c) (rev s) = rev s"
    by (intro takeWhile_eq_all_conv [THEN iffD2]) auto
  show ?thesis unfolding tw split_on_no_separator [OF False] by simp
next
  case True
  then obtain pre seg where s: "s = pre @ c # seg" "c \<notin> set seg"
    by (meson split_list_last)
  then have tw: "takeWhile (\<lambda>x. x \<noteq> c) (rev s) = rev seg"
    by (auto simp: takeWhile_tail)
  show ?thesis unfolding tw using s by (simp add: final_segment)
qed

lemma select_component_links:
  "set (select COMPONENT_LINK_SELECTOR roots) =
     {el. el \<in> snd ` set (concat (map (elements_below []) roots))
          \<and> (\<exists>attrs cs href. el = Element ''a'' attrs cs \<and> map_of attrs ''href'' = Some href
                \<and> prefix ''/docs/components/'' href)}"
proof -
  have "matches COMPONENT_LINK_SELECTOR (anc, el) =
      (\<exists>attrs cs href. el = Element ''a'' attrs cs \<and> map_of attrs ''href'' = Some href
                \<and> prefix ''/docs/components/'' href)" for anc el
    by (cases el) (auto simp: COMPONENT_LINK_SELECTOR_def matches_compound_def split: option.splits)
  then show ?thesis
    by (auto simp: select_def image_iff)
qed


lemma component_links_have_href:
  "el \<in> set (select COMPONENT_LINK_SELECTOR roots) \<Longrightarrow>
   \<exists>href. attr ''href'' el = Some href \<and> prefix ''/docs/components/'' href"
  unfolding select_component_links by auto

lemma component_names_of_links:
  "List.map_filter component_name (select COMPONENT_LINK_SELECTOR roots) =
   map (\<lambda>el. last (split_on CHR ''/'' (the (attr ''href'' el))))
     (select COMPONENT_LINK_SELECTOR roots)"
proof -
  have "List.map_filter component_name els =
      map (\<lambda>el. last (split_on CHR ''/'' (the (attr ''href'' el)))) els"
    if "\<forall>el \<in> set els. attr ''href'' el \<noteq> None" for els
    using that by (induction els) (auto simp: List.map_filter_def component_name_def)
  then show ?thesis using component_links_have_href by fastforce
qed

text \<open>
  Claim C5, as stated: for every page, when no anchor matches the scraper returns the
  empty sequence and a diagnostic, never an error. The empty page text has no anchor, and
  the scraper throws.
\<close>

theorem empty_page_is_rejected:
  "select COMPONENT_LINK_SELECTOR ((\<lambda>html. []) []) = []
   \<and> parseComponentsFromHtml (\<lambda>html. []) [] docs_world =
       (Inl (Error ''Invalid HTML content''), docs_world)"
  by (simp add: parseComponentsFromHtml_def select_def)

text \<open>
  Claim C5, amended: for every page text that is not empty, the component listing takes
  exactly the \<^verbatim>\<open>a\<close> elements of the parsed page whose \<^verbatim>\<open>href\<close> begins with
  \<^verbatim>\<open>/docs/components/\<close>, maps each to the text after the last slash of its
  \<^verbatim>\<open>href\<close>, drops the empty names and returns the others sorted ascending (strings
  compared by their code units); when no name is left, and so when no anchor matches, it
  returns the empty sequence and writes the diagnostic to the console; it never throws.
  (The empty page text is rejected with the error \<^verbatim>\<open>Invalid HTML content\<close>.)
\<close>

theorem parseComponentsFromHtml_names:
  assumes "html \<noteq> []"
  shows "\<exists>names.
      parseComponentsFromHtml load html w =
        (Inr names,
         if names = [] then w\<lparr>console := console w @ [''Warning: No components found in HTML'']\<rparr>
         else w)
      \<and> sorted names
      \<and> mset names =
          filter_mset (\<lambda>n. n \<noteq> [])
            (image_mset (\<lambda>el. rev (takeWhile (\<lambda>x. x \<noteq> CHR ''/'') (rev (the (attr ''href'' el)))))
               (mset (select COMPONENT_LINK_SELECTOR (load html))))
      \<and> set (select COMPONENT_LINK_SELECTOR (load html)) =
          {el. el \<in> snd ` set (concat (map (elements_below []) (load html)))
               \<and> (\<exists>attrs cs href. el = Element ''a'' attrs cs
                     \<and> map_of attrs ''href'' = Some href
                     \<and> prefix ''/docs/components/'' href)}
      \<and> (select COMPONENT_LINK_SELECTOR (load html) = [] \<longrightarrow> names = [])"
proof -
  let ?anchors = "select COMPONENT_LINK_SELECTOR (load html)"
  let ?names = "sort (filter (\<lambda>n. n \<noteq> []) (List.map_filter component_name ?anchors))"
  have "parseComponentsFromHtml load html w =
        (Inr ?names,
         if ?names = [] then w\<lparr>console := console w @ [''Warning: No components found in HTML'']\<rparr>
         else w)"
    using assms by (simp add: parseComponentsFromHtml_def console_error_def Let_def)
  moreover have "sorted ?names" by simp
  moreover have "mset ?names =
          filter_mset (\<lambda>n. n \<noteq> [])
            (image_mset (\<lambda>el. rev (takeWhile (\<lambda>x. x \<noteq> CHR ''/'') (rev (the (attr ''href'' el)))))
               (mset ?anchors))"
    by (simp add: component_names_of_links final_segment_takeWhile)
  moreover have "?anchors = [] \<longrightarrow> ?names = []"
    by (simp add: List.map_filter_def)
  ultimately show ?thesis
    using select_component_links [of "load html"] by blast
qed

lemma components_page_names:
  "sort (filter (\<lambda>n. n \<noteq> [])
     (List.map_filter component_name (select COMPONENT_LINK_SELECTOR components_page))) =
   [''accordion'', ''button'']"
  by code_simp

theorem parseComponentsFromHtml_names_witness:
  "''<html>'' \<noteq> []
   \<and> parseComponentsFromHtml (\<lambda>html. components_page) ''<html>'' docs_world =
       (Inr [''accordion'', ''button''], docs_world)"
  using parseComponentsFromHtml_names [of "''<html>''" "\<lambda>html. components_page" docs_world]
  by (simp add: parseComponentsFromHtml_def components_page_names)

section \<open>Properties of the matcher\<close>

lemma lit_match:
  "match_items (lit s @ items) st (s @ rest) cap = match_items items (st \<and> s = []) rest cap"
  by (induction s arbitrary: st) (simp_all add: lit_def)

lemma lit_mismatch:
  "\<not> prefix s inp \<Longrightarrow> match_items (lit s @ items) st inp cap = None"
proof (induction s arbitrary: inp st)
  case Nil
  then show ?case by simp
next
  case (Cons c s)
  then show ?case by (cases inp) (auto simp: lit_def)
qed

lemma star_all:
  assumes "\<forall>x \<in> set xs. in_cset cs x"
    and "rest = [] \<or> \<not> in_cset cs (hd rest)"
    and "match_items items (st \<and> xs = []) rest cap = Some r"
  shows "match_items (Star cs # items) st (xs @ rest) cap = Some r"
  using assms
proof (induction xs arbitrary: st)
  case Nil
  then show ?case by (cases rest) auto
next
  case (Cons x xs)
  then have "match_items (Star cs # items) False (xs @ rest) cap = Some r"
    by simp
  then show ?case using Cons.prems by simp
qed

lemma plus_all:
  assumes "xs \<noteq> []" "\<forall>x \<in> set xs. in_cset cs x"
    and "rest = [] \<or> \<not> in_cset cs (hd rest)"
    and "match_items items False rest cap = Some r"
  shows "match_items (Plus cs # items) st (xs @ rest) cap = Some r"
proof -
  obtain x xs' where xs: "xs = x # xs'" using assms(1) by (cases xs) auto
  have "match_items (Star cs # items) False (xs' @ rest) cap = Some r"
    using assms xs by (intro star_all) auto
  then show ?thesis using assms xs by simp
qed

lemma lazy_found:
  "match_items items st rest cap = Some r \<Longrightarrow>
   match_items (LazyStar cs # items) st rest cap = Some r"
  by (cases rest) auto

lemma lazy_skip:
  assumes "\<forall>i < length xs. match_items items (st \<and> i = 0) (drop i (xs @ rest)) cap = None"
  shows "match_items (LazyStar AnyChar # items) st (xs @ rest) cap =
         match_items (LazyStar AnyChar # items) (st \<and> xs = []) rest cap"
  using assms
proof (induction xs arbitrary: st)
  case Nil
  then show ?case by simp
next
  case (Cons x xs)
  have here: "match_items items st (x # xs @ rest) cap = None"
    using Cons.prems by force
  have "\<forall>i < length xs. match_items items (False \<and> i = 0) (drop i (xs @ rest)) cap = None"
  proof (intro allI impI)
    fix i assume "i < length xs"
    then have "match_items items (st \<and> Suc i = 0) (drop (Suc i) ((x # xs) @ rest)) cap = None"
      using Cons.prems by (metis Suc_less_eq length_Cons)
    then show "match_items items (False \<and> i = 0) (drop i (xs @ rest)) cap = None" by simp
  qed
  then have "match_items (LazyStar AnyChar # items) False (xs @ rest) cap =
         match_items (LazyStar AnyChar # items) (False \<and> xs = []) rest cap"
    by (rule Cons.IH)
  then show ?case using here by simp
qed

lemma lazy_none:
  assumes "\<forall>i \<le> length t. match_items items (st \<and> i = 0) (drop i t) cap = None"
  shows "match_items (LazyStar AnyChar # items) st t cap = None"
  using assms
proof (induction t arbitrary: st)
  case Nil
  then show ?case by simp
next
  case (Cons x t)
  have here: "match_items items st (x # t) cap = None"
    using Cons.prems by force
  have "\<forall>i \<le> length t. match_items items (False \<and> i = 0) (drop i t) cap = None"
  proof (intro allI impI)
    fix i assume "i \<le> length t"
    then have "match_items items (st \<and> Suc i = 0) (drop (Suc i) (x # t)) cap = None"
      using Cons.prems by (metis Suc_le_mono length_Cons)
    then show "match_items items (False \<and> i = 0) (drop i t) cap = None" by simp
  qed
  then have "match_items (LazyStar AnyChar # items) False t cap = None"
    by (rule Cons.IH)
  then show ?case using here by simp
qed

lemma search_found: "match_here r st s = Some m \<Longrightarrow> search r st s = Some m"
  by (cases s) auto

lemma search_skip:
  assumes "\<forall>i < length pre. match_here r (st \<and> i = 0) (drop i (pre @ s)) = None"
  shows "search r st (pre @ s) = search r (st \<and> pre = []) s"
  using assms
proof (induction pre arbitrary: st)
  case Nil
  then show ?case by simp
next
  case (Cons x pre)
  have here: "match_here r st (x # pre @ s) = None"
    using Cons.prems by force
  have "\<forall>i < length pre. match_here r (False \<and> i = 0) (drop i (pre @ s)) = None"
  proof (intro allI impI)
    fix i assume "i < length pre"
    then have "match_here r (st \<and> Suc i = 0) (drop (Suc i) ((x # pre) @ s)) = None"
      using Cons.prems by (metis Suc_less_eq length_Cons)
    then show "match_here r (False \<and> i = 0) (drop i (pre @ s)) = None" by simp
  qed
  then have "search r False (pre @ s) = search r (False \<and> pre = []) s"
    by (rule Cons.IH)
  then show ?case using here by simp
qed

lemma search_none:
  assumes "\<forall>i \<le> length s. match_here r (st \<and> i = 0) (drop i s) = None"
  shows "search r st s = None"
  using assms
proof (induction s arbitrary: st)
  case Nil
  then show ?case by simp
next
  case (Cons x s)
  have here: "match_here r st (x # s) = None"
    using Cons.prems by force
  have "\<forall>i \<le> length s. match_here r (False \<and> i = 0) (drop i s) = None"
  proof (intro allI impI)
    fix i assume "i \<le> length s"
    then have "match_here r (st \<and> Suc i = 0) (drop (Suc i) (x # s)) = None"
      using Cons.prems by (metis Suc_le_mono length_Cons)
    then show "match_here r (False \<and> i = 0) (drop i s) = None" by simp
  qed
  then have "search r False s = None"
    by (rule Cons.IH)
  then show ?case using here by simp
qed

text \<open>An expression that starts with a literal text matches only where that text stands.\<close>

lemma match_here_lit_mismatch:
  "\<not> prefix s inp \<Longrightarrow> match_here [lit s @ items] st inp = None"
  by (simp add: match_here_def lit_mismatch)

lemma occurs_iff: "occurs pat s = (\<exists>i \<le> length s. prefix pat (drop i s))"
  by (simp only: occurs_def list_ex_iff set_upt atLeastLessThan_iff less_Suc_eq_le Bex_def) blast

lemma first_at_iff:
  "first_at pat s n = (prefix pat (drop n s) \<and> (\<forall>i < n. \<not> prefix pat (drop i s)))"
  by (auto simp: first_at_def list_all_iff)

lemma search_lit_absent:
  "\<not> occurs s inp \<Longrightarrow> search [lit s @ items] st inp = None"
  by (intro search_none) (auto simp: occurs_iff match_here_lit_mismatch)

text \<open>
  The group of every expression that is read with \<^verbatim>\<open>match[1]\<close> takes part in each
  of its matches, so \<^verbatim>\<open>match[1]\<close> is never \<^verbatim>\<open>undefined\<close> there.
\<close>

lemma match_items_group:
  "match_items items st s cap = Some (cap', rest) \<Longrightarrow>
   is_captured cap' = group_is_set items (is_opened cap) (is_captured cap)"
proof (induction items st s cap rule: match_items.induct)
  case (5 cs items st c s cap)
  then show ?case by (auto split: if_splits option.splits)
next
  case (9 cs items st c s cap)
  then show ?case by (auto split: if_splits option.splits)
next
  case (11 items st s cap)
  then show ?case by (cases cap) auto
qed (auto split: if_splits)

lemma match_here_group:
  "match_here [items] st s = Some (whole, g) \<Longrightarrow> group_is_set items False False \<Longrightarrow> g \<noteq> None"
proof -
  assume m: "match_here [items] st s = Some (whole, g)" and set: "group_is_set items False False"
  then obtain cap rest where c: "match_items items st s NotOpened = Some (cap, rest)"
    by (auto simp: match_here_def split: option.splits)
  then have "is_captured cap" using match_items_group [OF c] set by simp
  then show ?thesis using m c by (cases cap) (auto simp: match_here_def)
qed

lemma search_group:
  "search [items] st s = Some (whole, g) \<Longrightarrow> group_is_set items False False \<Longrightarrow> g \<noteq> None"
proof (induction s arbitrary: st)
  case Nil
  then show ?case using match_here_group by auto
next
  case (Cons c s)
  then show ?case using match_here_group by (auto split: option.splits)
qed

lemma group_always_set:
  assumes "js_match s r = Some (whole, g)"
    and "r \<in> set DESCRIPTION_PATTERNS \<union>
           {FRONTMATTER_REGEX, FIRST_PARAGRAPH_REGEX, LINKS_REGEX, DOC_LINK_REGEX, API_LINK_REGEX}"
  shows "g \<noteq> None"
proof -
  obtain items where "r = [items]" "group_is_set items False False"
    using assms(2)
    by (auto simp: DESCRIPTION_PATTERNS_def FRONTMATTER_REGEX_def FIRST_PARAGRAPH_REGEX_def
        LINKS_REGEX_def DOC_LINK_REGEX_def API_LINK_REGEX_def lit_def)
  then show ?thesis using assms(1) search_group by (auto simp: js_match_def)
qed

section \<open>The description rules and the matcher\<close>

text \<open>
  A star whose class shares no character with what may follow gives nothing back: it
  takes the longest run and the rest of the expression goes on from there.
\<close>

lemma star_det:
  assumes "\<And>c s st cap. in_cset cs c \<Longrightarrow> match_items items st (c # s) cap = None"
  shows "match_items (Star cs # items) st s cap =
         match_items items (st \<and> takeWhile (in_cset cs) s = []) (dropWhile (in_cset cs) s) cap"
proof (induction s arbitrary: st)
  case Nil
  then show ?case by simp
next
  case (Cons c s)
  show ?case
  proof (cases "in_cset cs c")
    case True
    have "match_items (Star cs # items) False s cap =
         match_items items False (dropWhile (in_cset cs) s) cap"
      using Cons.IH [of False] by simp
    then show ?thesis using True assms [OF True] by (simp split: option.splits)
  next
    case False
    then show ?thesis by simp
  qed
qed

lemma lit_at:
  "match_items (lit p @ items) st s cap =
     (if prefix p s then match_items items (st \<and> p = []) (drop (length p) s) cap else None)"
proof (cases "prefix p s")
  case True
  then obtain r where "s = p @ r" by (auto simp: prefix_def)
  then show ?thesis using lit_match [of p items st r cap] by simp
next
  case False
  then show ?thesis by (simp add: lit_mismatch)
qed

lemma in_space: "in_cset Space = is_space"
  by (rule ext) simp

lemma in_not_quote: "in_cset (NoneOf [dquote, squote]) = (\<lambda>c. \<not> is_quote c)"
  by (rule ext) (simp add: is_quote_def)

lemma in_not_newline: "in_cset (NoneOf ''\<newline>'') = (\<lambda>c. c \<noteq> CHR ''\<newline>'')"
  by (rule ext) simp

lemma length_dropWhile_take:
  "take (length s - length (dropWhile P s)) s = takeWhile P s"
proof -
  have "length s = length (takeWhile P s) + length (dropWhile P s)"
    by (metis length_append takeWhile_dropWhile_id)
  then have "length s - length (dropWhile P s) = length (takeWhile P s)" by simp
  then show ?thesis by (metis append_eq_conv_conj takeWhile_dropWhile_id)
qed

text \<open>The group \<^verbatim>\<open>([^\n]+)\<close> at the end of an expression.\<close>

lemma line_group:
  "map_option fst (match_items [GroupOpen, Plus (NoneOf ''\<newline>''), GroupClose] st s cap) =
   map_option Captured (line_value s)"
proof (cases s)
  case Nil
  then show ?thesis by (simp add: line_value_def)
next
  case (Cons c r)
  show ?thesis
  proof (cases "c = CHR ''\<newline>''")
    case True
    then show ?thesis using Cons by (simp add: line_value_def)
  next
    case False
    let ?P = "\<lambda>c. c \<noteq> CHR ''\<newline>''"
    have "match_items [Star (NoneOf ''\<newline>''), GroupClose] False (takeWhile ?P r @ dropWhile ?P r)
            (Opened s) =
          Some (Captured (take (length s - length (dropWhile ?P r)) s), dropWhile ?P r)"
    proof (rule star_all)
      show "\<forall>x \<in> set (takeWhile ?P r). in_cset (NoneOf ''\<newline>'') x"
        by (auto dest: set_takeWhileD)
      show "dropWhile ?P r = [] \<or> \<not> in_cset (NoneOf ''\<newline>'') (hd (dropWhile ?P r))"
        using hd_dropWhile [of ?P r] by auto
      show "match_items [GroupClose] (False \<and> takeWhile ?P r = []) (dropWhile ?P r) (Opened s) =
          Some (Captured (take (length s - length (dropWhile ?P r)) s), dropWhile ?P r)"
        by simp
    qed
    moreover have "take (length s - length (dropWhile ?P r)) s = takeWhile ?P s"
      using length_dropWhile_take [of s ?P] Cons False by simp
    ultimately show ?thesis using Cons False by (simp add: line_value_def)
  qed
qed

text \<open>The tail \<^verbatim>\<open>["']([^"']+)["']\<close> of the quoted patterns.\<close>

lemma quoted_group:
  "map_option fst
     (match_items [One (OneOf [dquote, squote]), GroupOpen, Plus (NoneOf [dquote, squote]),
        GroupClose, One (OneOf [dquote, squote])] st s cap) =
   map_option Captured (quoted_value s)"
proof (cases s)
  case Nil
  then show ?thesis by (simp add: quoted_value_def)
next
  case (Cons q r)
  let ?P = "\<lambda>c. \<not> is_quote c"
  let ?Q = "OneOf [dquote, squote]" and ?NQ = "NoneOf [dquote, squote]"
  show ?thesis
  proof (cases "is_quote q")
    case False
    then show ?thesis using Cons by (auto simp: quoted_value_def is_quote_def)
  next
    case True
    have q: "in_cset ?Q q" using True by (simp add: is_quote_def)
    show ?thesis
    proof (cases r)
      case Nil
      then show ?thesis using Cons q by (simp add: quoted_value_def)
    next
      case (Cons c r')
      note r = Cons
      show ?thesis
      proof (cases "is_quote c")
        case True
        then show ?thesis using r \<open>s = q # r\<close> q by (auto simp: quoted_value_def is_quote_def)
      next
        case False
        have det: "match_items (Star ?NQ # [GroupClose, One ?Q]) False r' (Opened r) =
            match_items [GroupClose, One ?Q] (False \<and> takeWhile (in_cset ?NQ) r' = [])
              (dropWhile (in_cset ?NQ) r') (Opened r)"
          by (rule star_det) auto
        have tk: "take (length r - length (dropWhile ?P r')) r = takeWhile ?P r"
          using length_dropWhile_take [of r ?P] r False by simp
        have dq: "dropWhile ?P r' \<noteq> [] \<Longrightarrow> in_cset ?Q (hd (dropWhile ?P r'))"
          using hd_dropWhile [of ?P r'] by (auto simp: is_quote_def)
        define d where "d = dropWhile ?P r'"
        have "map_option fst (match_items [GroupClose, One ?Q] False d (Opened r)) =
            (if d = [] then None else Some (Captured (takeWhile ?P r)))"
          using dq tk unfolding d_def [symmetric] by (cases d) auto
        then have "map_option fst (match_items [GroupClose, One ?Q] False (dropWhile ?P r') (Opened r)) =
            (if dropWhile ?P r' = [] then None else Some (Captured (takeWhile ?P r)))"
          unfolding d_def .
        then show ?thesis
          using r \<open>s = q # r\<close> q False det
          by (simp add: quoted_value_def in_not_quote) (simp add: is_quote_def)
      qed
    qed
  qed
qed

lemma newline_is_space: "is_space CHR ''\<newline>''"
  by (simp add: is_space_def)

lemma unquoted_group:
  "map_option fst
     (match_items [Star Space, GroupOpen, Plus (NoneOf ''\<newline>''), GroupClose] st s cap) =
   map_option Captured (unquoted_value s)"
proof (induction s arbitrary: st)
  case Nil
  then show ?case using line_group [of st "[]" cap] by (simp add: unquoted_value_def line_value_def)
next
  case (Cons c s)
  let ?G = "[GroupOpen, Plus (NoneOf ''\<newline>''), GroupClose]"
  let ?N = "\<lambda>c. c \<noteq> CHR ''\<newline>''"
  have here: "map_option fst (match_items ?G st (c # s) cap) = map_option Captured (line_value (c # s))"
    by (rule line_group)
  show ?case
  proof (cases "is_space c")
    case False
    then show ?thesis using here by (simp add: unquoted_value_def)
  next
    case True
    note IH = Cons.IH [of False]
    show ?thesis
    proof (cases "unquoted_value s")
      case (Some v)
      then obtain x where x: "match_items (Star Space # ?G) False s cap = Some x" "fst x = Captured v"
        using IH by (cases "match_items (Star Space # ?G) False s cap") auto
      have "unquoted_value (c # s) = Some v"
      proof (cases "dropWhile is_space s = []")
        case False
        then show ?thesis using Some True by (simp add: unquoted_value_def)
      next
        case d: True
        then have f: "filter ?N s \<noteq> []" "v = [last (filter ?N s)]"
          using Some by (auto simp: unquoted_value_def split: list.splits)
        then show ?thesis using d True by (auto simp: unquoted_value_def split: list.splits)
      qed
      then show ?thesis using x True by simp
    next
      case None
      have d: "dropWhile is_space s = []"
      proof (rule ccontr)
        assume ne: "dropWhile is_space s \<noteq> []"
        then obtain x xs where x: "dropWhile is_space s = x # xs"
          by (cases "dropWhile is_space s") auto
        have "\<not> is_space x"
          using hd_dropWhile [OF ne] x by simp
        then have "x \<noteq> CHR ''\<newline>''"
          using newline_is_space by auto
        then show False
          using None x by (simp add: unquoted_value_def line_value_def)
      qed
      have f: "filter ?N s = []"
        using None d by (simp add: unquoted_value_def split: list.splits)
      have star: "match_items (Star Space # ?G) False s cap = None"
        using IH None by simp
      have tw: "takeWhile ?N s = []"
        using f by (cases s) (auto simp: filter_empty_conv split: if_splits)
      have "map_option Captured (line_value (c # s)) = map_option Captured (unquoted_value (c # s))"
        using d f True tw by (simp add: unquoted_value_def line_value_def)
      then show ?thesis using star here True by simp
    qed
  qed
qed

lemma match_here_group1:
  "map_option fst (match_items items st s NotOpened) = map_option Captured v \<Longrightarrow>
   map_option group1 (match_here [items] st s) = v"
  by (cases "match_items items st s NotOpened"; cases v) (auto simp: match_here_def)

lemma search_leftmost:
  assumes "\<And>st s. map_option group1 (match_here r st s) = f s"
  shows "map_option group1 (search r st s) = leftmost f s"
proof (induction s arbitrary: st)
  case Nil
  then show ?case using assms by simp
next
  case (Cons c s)
  show ?case
    using assms [of st "c # s"] Cons.IH [of False]
    by (cases "match_here r st (c # s)"; cases "f (c # s)") auto
qed

lemma quoted_field_here:
  "map_option group1 (match_here (DESCRIPTION_PATTERNS ! 0) st s) = quoted_field s"
proof -
  let ?Q = "OneOf [dquote, squote]" and ?NQ = "NoneOf [dquote, squote]"
  let ?T = "[One ?Q, GroupOpen, Plus ?NQ, GroupClose, One ?Q]"
  have "match_items (Star Space # ?T) st' t NotOpened =
        match_items ?T (st' \<and> takeWhile (in_cset Space) t = []) (dropWhile (in_cset Space) t) NotOpened"
    for st' t
    by (rule star_det) (auto simp: is_space_def)
  then have "map_option fst (match_items (lit ''description:'' @ Star Space # ?T) st s NotOpened) =
      map_option Captured (quoted_field s)"
    unfolding lit_at quoted_field_def in_space using quoted_group by simp
  then have "map_option group1 (match_here [lit ''description:'' @ Star Space # ?T] st s) =
      quoted_field s"
    by (rule match_here_group1)
  then show ?thesis by (simp add: DESCRIPTION_PATTERNS_def)
qed

lemma unquoted_field_here:
  "map_option group1 (match_here (DESCRIPTION_PATTERNS ! 1) st s) = unquoted_field s"
proof -
  let ?G = "[Star Space, GroupOpen, Plus (NoneOf ''\<newline>''), GroupClose]"
  have "map_option fst (match_items (lit ''description:'' @ ?G) st s NotOpened) =
      map_option Captured (unquoted_field s)"
    unfolding lit_at unquoted_field_def using unquoted_group by simp
  then have "map_option group1 (match_here [lit ''description:'' @ ?G] st s) = unquoted_field s"
    by (rule match_here_group1)
  then show ?thesis by (simp add: DESCRIPTION_PATTERNS_def)
qed

lemma spaced_field_here:
  "map_option group1 (match_here (DESCRIPTION_PATTERNS ! 2) st s) = spaced_field s"
proof -
  let ?Q = "OneOf [dquote, squote]" and ?NQ = "NoneOf [dquote, squote]"
  let ?T = "[One ?Q, GroupOpen, Plus ?NQ, GroupClose, One ?Q]"
  let ?C = "One (Lit CHR '':'') # Star Space # ?T"
  have second: "match_items (Star Space # ?T) st' t NotOpened =
        match_items ?T (st' \<and> takeWhile is_space t = []) (dropWhile is_space t) NotOpened"
    for st' t
    unfolding in_space [symmetric] by (rule star_det) (auto simp: is_space_def)
  have first: "match_items (Star Space # ?C) st' t NotOpened =
        match_items ?C (st' \<and> takeWhile is_space t = []) (dropWhile is_space t) NotOpened"
    for st' t
    unfolding in_space [symmetric] by (rule star_det) (auto simp: is_space_def)
  have colon: "map_option fst (match_items ?C st' t NotOpened) =
      map_option Captured
        (case t of [] \<Rightarrow> None
         | c # r \<Rightarrow> if c = CHR '':'' then quoted_value (dropWhile is_space r) else None)"
    for st' t
    using quoted_group by (cases t) (simp_all add: second)
  have "map_option fst (match_items (lit ''description'' @ Star Space # ?C) st s NotOpened) =
      map_option Captured (spaced_field s)"
    unfolding lit_at spaced_field_def first using colon by simp
  then have "map_option group1 (match_here [lit ''description'' @ Star Space # ?C] st s) =
      spaced_field s"
    by (rule match_here_group1)
  then show ?thesis by (simp add: DESCRIPTION_PATTERNS_def)
qed

lemma lazy_leftmost:
  assumes "\<And>st s. map_option fst (match_items items st s cap) = map_option Captured (f s)"
  shows "map_option fst (match_items (LazyStar AnyChar # items) st s cap) =
         map_option Captured (leftmost f s)"
proof (induction s arbitrary: st)
  case Nil
  then show ?case using assms [of st "[]"] by simp
next
  case (Cons c s)
  show ?case
    using assms [of st "c # s"] Cons.IH [of False]
    by (cases "match_items items st (c # s) cap"; cases "f (c # s)") auto
qed

lemma opening_paragraph_here:
  "map_option group1 (match_here FIRST_PARAGRAPH_REGEX st s) = opening_paragraph s"
proof -
  let ?G = "[GroupOpen, Plus (NoneOf ''\<newline>''), GroupClose]"
  let ?C = "lit ''\<newline>---\<newline>\<newline>'' @ ?G"
  have "map_option fst (match_items ?C st' t NotOpened) = map_option Captured (paragraph_line t)"
    for st' t
    unfolding lit_at paragraph_line_def using line_group by simp
  then have "map_option fst (match_items (LazyStar AnyChar # ?C) st' t NotOpened) =
      map_option Captured (leftmost paragraph_line t)" for st' t
    by (rule lazy_leftmost)
  then have "map_option fst (match_items (lit ''---\<newline>'' @ LazyStar AnyChar # ?C) st s NotOpened) =
      map_option Captured (opening_paragraph s)"
    unfolding lit_at opening_paragraph_def by simp
  then have "map_option group1 (match_here [lit ''---\<newline>'' @ LazyStar AnyChar # ?C] st s) =
      opening_paragraph s"
    by (rule match_here_group1)
  then show ?thesis by (simp add: FIRST_PARAGRAPH_REGEX_def)
qed

lemma case_group1:
  "(case x of Some m \<Rightarrow> g (trim (group1 m)) | None \<Rightarrow> y) =
   (case map_option group1 x of Some v \<Rightarrow> g (trim v) | None \<Rightarrow> y)"
  by (cases x) auto

lemma extractDescription_direct:
  "extractDescription fm mdx =
     (case leftmost quoted_field fm of
        Some v \<Rightarrow> trim v
      | None \<Rightarrow>
          (case leftmost unquoted_field fm of
             Some v \<Rightarrow> trim v
           | None \<Rightarrow>
               (case leftmost spaced_field fm of
                  Some v \<Rightarrow> trim v
                | None \<Rightarrow>
                    (case leftmost opening_paragraph mdx of
                       Some v \<Rightarrow> trim v
                     | None \<Rightarrow> []))))"
proof -
  have three: "DESCRIPTION_PATTERNS =
      [DESCRIPTION_PATTERNS ! 0, DESCRIPTION_PATTERNS ! 1, DESCRIPTION_PATTERNS ! 2]"
    by (simp add: DESCRIPTION_PATTERNS_def)
  have a: "map_option group1 (js_match fm (DESCRIPTION_PATTERNS ! 0)) = leftmost quoted_field fm"
    unfolding js_match_def by (rule search_leftmost) (rule quoted_field_here)
  have b: "map_option group1 (js_match fm (DESCRIPTION_PATTERNS ! 1)) = leftmost unquoted_field fm"
    unfolding js_match_def by (rule search_leftmost) (rule unquoted_field_here)
  have c: "map_option group1 (js_match fm (DESCRIPTION_PATTERNS ! 2)) = leftmost spaced_field fm"
    unfolding js_match_def by (rule search_leftmost) (rule spaced_field_here)
  have p: "map_option group1 (js_match mdx FIRST_PARAGRAPH_REGEX) = leftmost opening_paragraph mdx"
    unfolding js_match_def by (rule search_leftmost) (rule opening_paragraph_here)
  have "extractDescription fm mdx =
      (case js_match fm (DESCRIPTION_PATTERNS ! 0) of
          Some m \<Rightarrow> trim (group1 m)
        | None \<Rightarrow>
            (case js_match fm (DESCRIPTION_PATTERNS ! 1) of
               Some m \<Rightarrow> trim (group1 m)
             | None \<Rightarrow>
                 (case js_match fm (DESCRIPTION_PATTERNS ! 2) of
                    Some m \<Rightarrow> trim (group1 m)
                  | None \<Rightarrow>
                      (case js_match mdx FIRST_PARAGRAPH_REGEX of
                         Some m \<Rightarrow> trim (group1 m)
                       | None \<Rightarrow> []))))"
    unfolding extractDescription_def by (subst three) (simp split: option.splits)
  then show ?thesis
    unfolding case_group1 [where g = "\<lambda>x. x"] a b c p .
qed

lemma js_match_opening_paragraph:
  "map_option group1 (js_match mdx FIRST_PARAGRAPH_REGEX) = leftmost opening_paragraph mdx"
  unfolding js_match_def by (rule search_leftmost) (rule opening_paragraph_here)

lemma only_at_iff:
  "only_at pat s n = (prefix pat (drop n s) \<and> (\<forall>i \<le> length s. prefix pat (drop i s) \<longrightarrow> i = n))"
  by (auto simp: only_at_def list_all_iff)

lemma no_line_after_iff:
  "no_line_after pat s =
     (\<forall>i \<le> length s. prefix pat (drop i s) \<longrightarrow> line_value (drop (i + length pat) s) = None)"
  by (auto simp: no_line_after_def list_all_iff)

lemma leftmost_found: "f s = Some v \<Longrightarrow> leftmost f s = Some v"
  by (cases s) auto

lemma leftmost_skip:
  assumes "\<forall>i < length pre. f (drop i (pre @ s)) = None"
  shows "leftmost f (pre @ s) = leftmost f s"
  using assms
proof (induction pre)
  case Nil
  then show ?case by simp
next
  case (Cons x pre)
  have here: "f (x # pre @ s) = None"
    using Cons.prems by force
  have "\<forall>i < length pre. f (drop i (pre @ s)) = None"
  proof (intro allI impI)
    fix i assume "i < length pre"
    then have "f (drop (Suc i) ((x # pre) @ s)) = None"
      using Cons.prems by (metis Suc_less_eq length_Cons)
    then show "f (drop i (pre @ s)) = None" by simp
  qed
  then have "leftmost f (pre @ s) = leftmost f s"
    by (rule Cons.IH)
  then show ?case using here by simp
qed

lemma leftmost_none:
  assumes "\<forall>i \<le> length s. f (drop i s) = None"
  shows "leftmost f s = None"
  using assms
proof (induction s)
  case Nil
  then show ?case by simp
next
  case (Cons x s)
  have here: "f (x # s) = None"
    using Cons.prems by force
  have "\<forall>i \<le> length s. f (drop i s) = None"
  proof (intro allI impI)
    fix i assume "i \<le> length s"
    then have "f (drop (Suc i) (x # s)) = None"
      using Cons.prems by (metis Suc_le_mono length_Cons)
    then show "f (drop i s) = None" by simp
  qed
  then have "leftmost f s = None"
    by (rule Cons.IH)
  then show ?case using here by simp
qed

lemma dropWhile_spaces:
  "\<forall>c \<in> set ws. is_space c \<Longrightarrow> r = [] \<or> \<not> is_space (hd r) \<Longrightarrow> dropWhile is_space (ws @ r) = r"
  by (cases r) (auto simp: dropWhile_append)

lemma quoted_value_shape:
  assumes "is_quote q1" "is_quote q2" "v \<noteq> []" "\<forall>c \<in> set v. \<not> is_quote c"
  shows "quoted_value (q1 # v @ q2 # post) = Some v"
proof -
  have "takeWhile (\<lambda>c. \<not> is_quote c) (v @ q2 # post) = v"
    using assms by (simp add: takeWhile_append2)
  moreover have "dropWhile (\<lambda>c. \<not> is_quote c) (v @ q2 # post) = q2 # post"
    using assms by (simp add: dropWhile_append2)
  ultimately show ?thesis using assms by (simp add: quoted_value_def)
qed

lemma line_value_shape:
  assumes "v \<noteq> []" "CHR ''\<newline>'' \<notin> set v" "post = [] \<or> hd post = CHR ''\<newline>''"
  shows "line_value (v @ post) = Some v"
proof -
  have all: "\<And>x. x \<in> set v \<Longrightarrow> x \<noteq> CHR ''\<newline>''"
    using assms by auto
  have "takeWhile (\<lambda>c. c \<noteq> CHR ''\<newline>'') (v @ post) = v"
    using assms(2,3) by (cases post) (auto simp: takeWhile_append2 [of v, OF all])
  moreover obtain x xs where "v = x # xs" "x \<noteq> CHR ''\<newline>''"
    using assms by (cases v) auto
  ultimately show ?thesis by (simp add: line_value_def)
qed

text \<open>The unquoted rule, where the only \<^verbatim>\<open>description:\<close> of the text stands.\<close>

lemma unquoted_rule:
  assumes only: "only_at ''description:'' (pre @ ''description:'' @ ws @ v @ post) (length pre)"
    and ws: "\<forall>c \<in> set ws. is_space c"
    and v: "v \<noteq> []" "\<not> is_space (hd v)" "\<not> is_quote (hd v)" "CHR ''\<newline>'' \<notin> set v"
    and post: "post = [] \<or> hd post = CHR ''\<newline>''"
  shows "leftmost quoted_field (pre @ ''description:'' @ ws @ v @ post) = None"
    and "leftmost unquoted_field (pre @ ''description:'' @ ws @ v @ post) = Some v"
proof -
  let ?s = "''description:'' @ ws @ v @ post"
  have sp: "dropWhile is_space (ws @ v @ post) = v @ post"
    using ws v by (intro dropWhile_spaces) auto
  have other: "\<not> prefix ''description:'' (drop i (pre @ ?s))" if "i \<le> length (pre @ ?s)" "i \<noteq> length pre" for i
    using only that unfolding only_at_iff by blast
  have "quoted_value (v @ post) = None"
    using v by (cases v) (auto simp: quoted_value_def)
  then have here: "quoted_field ?s = None"
    using sp by (simp add: quoted_field_def)
  show "leftmost quoted_field (pre @ ?s) = None"
  proof (rule leftmost_none, intro allI impI)
    fix i assume i: "i \<le> length (pre @ ?s)"
    show "quoted_field (drop i (pre @ ?s)) = None"
    proof (cases "i = length pre")
      case True
      then show ?thesis using here by simp
    next
      case False
      then show ?thesis using other [OF i] by (simp add: quoted_field_def)
    qed
  qed
  have "\<forall>i < length pre. unquoted_field (drop i (pre @ ?s)) = None"
  proof (intro allI impI)
    fix i assume "i < length pre"
    then have "\<not> prefix ''description:'' (drop i (pre @ ?s))"
      using other [of i] by simp
    then show "unquoted_field (drop i (pre @ ?s)) = None"
      by (simp add: unquoted_field_def)
  qed
  then have "leftmost unquoted_field (pre @ ?s) = leftmost unquoted_field ?s"
    by (rule leftmost_skip)
  moreover have "unquoted_field ?s = Some v"
    using sp v line_value_shape [OF v(1) v(4) post] by (simp add: unquoted_field_def unquoted_value_def)
  ultimately show "leftmost unquoted_field (pre @ ?s) = Some v"
    by (simp add: leftmost_found)
qed

text \<open>The spaced rule, in a text without \<^verbatim>\<open>description:\<close>.\<close>

lemma spaced_rule:
  assumes absent: "\<not> occurs ''description:'' (pre @ ''description'' @ ws @ CHR '':'' # ws' @ q1 # v @ q2 # post)"
    and first: "first_at ''description'' (pre @ ''description'' @ ws @ CHR '':'' # ws' @ q1 # v @ q2 # post)
      (length pre)"
    and ws: "\<forall>c \<in> set ws. is_space c" "\<forall>c \<in> set ws'. is_space c"
    and q: "is_quote q1" "is_quote q2"
    and v: "v \<noteq> []" "\<forall>c \<in> set v. \<not> is_quote c"
  shows "leftmost quoted_field (pre @ ''description'' @ ws @ CHR '':'' # ws' @ q1 # v @ q2 # post) = None"
    and "leftmost unquoted_field (pre @ ''description'' @ ws @ CHR '':'' # ws' @ q1 # v @ q2 # post) = None"
    and "leftmost spaced_field (pre @ ''description'' @ ws @ CHR '':'' # ws' @ q1 # v @ q2 # post) = Some v"
proof -
  let ?s = "''description'' @ ws @ CHR '':'' # ws' @ q1 # v @ q2 # post"
  have none: "\<not> prefix ''description:'' (drop i (pre @ ?s))" if "i \<le> length (pre @ ?s)" for i
    using absent that unfolding occurs_iff by blast
  show "leftmost quoted_field (pre @ ?s) = None"
  proof (rule leftmost_none, intro allI impI)
    fix i assume "i \<le> length (pre @ ?s)"
    then have "\<not> prefix ''description:'' (drop i (pre @ ?s))" by (rule none)
    then show "quoted_field (drop i (pre @ ?s)) = None"
      by (simp only: quoted_field_def if_False)
  qed
  show "leftmost unquoted_field (pre @ ?s) = None"
  proof (rule leftmost_none, intro allI impI)
    fix i assume "i \<le> length (pre @ ?s)"
    then have "\<not> prefix ''description:'' (drop i (pre @ ?s))" by (rule none)
    then show "unquoted_field (drop i (pre @ ?s)) = None"
      by (simp only: unquoted_field_def if_False)
  qed
  have "\<forall>i < length pre. spaced_field (drop i (pre @ ?s)) = None"
  proof (intro allI impI)
    fix i assume "i < length pre"
    then have "\<not> prefix ''description'' (drop i (pre @ ?s))"
      using first unfolding first_at_iff by blast
    then show "spaced_field (drop i (pre @ ?s)) = None"
      by (simp only: spaced_field_def if_False)
  qed
  then have "leftmost spaced_field (pre @ ?s) = leftmost spaced_field ?s"
    by (rule leftmost_skip)
  moreover have "spaced_field ?s = Some v"
  proof -
    have "\<not> is_space (CHR '':'')" by (simp add: is_space_def)
    then have a: "dropWhile is_space (ws @ CHR '':'' # ws' @ q1 # v @ q2 # post) =
        CHR '':'' # ws' @ q1 # v @ q2 # post"
      using ws by (intro dropWhile_spaces) auto
    have "\<not> is_space q1" using q by (auto simp: is_quote_def is_space_def)
    then have b: "dropWhile is_space (ws' @ q1 # v @ q2 # post) = q1 # v @ q2 # post"
      using ws by (intro dropWhile_spaces) auto
    show ?thesis
      using a b quoted_value_shape [OF q v] by (simp add: spaced_field_def)
  qed
  ultimately show "leftmost spaced_field (pre @ ?s) = Some v"
    by (simp add: leftmost_found)
qed

lemma no_paragraph:
  assumes "no_line_after ''\<newline>---\<newline>\<newline>'' mdx"
  shows "leftmost opening_paragraph mdx = None"
proof (rule leftmost_none, intro allI impI)
  fix i assume i: "i \<le> length mdx"
  let ?t = "drop (length ''---\<newline>'') (drop i mdx)"
  have "leftmost paragraph_line ?t = None"
  proof (rule leftmost_none, intro allI impI)
    fix k assume k: "k \<le> length ?t"
    define j where "j = k + (length ''---\<newline>'' + i)"
    have eq: "drop k ?t = drop j mdx"
      unfolding j_def by (simp only: drop_drop)
    have "prefix ''\<newline>---\<newline>\<newline>'' (drop j mdx) \<longrightarrow>
        line_value (drop (j + length ''\<newline>---\<newline>\<newline>'') mdx) = None"
    proof (cases "j \<le> length mdx")
      case True
      then show ?thesis using assms unfolding no_line_after_iff by blast
    next
      case False
      then show ?thesis by simp
    qed
    moreover have "drop (length ''\<newline>---\<newline>\<newline>'') (drop j mdx) =
        drop (j + length ''\<newline>---\<newline>\<newline>'') mdx"
      by (simp only: drop_drop add.commute)
    ultimately show "paragraph_line (drop k ?t) = None"
      unfolding eq paragraph_line_def by (simp only: if_split) auto
  qed
  then show "opening_paragraph (drop i mdx) = None"
    by (simp add: opening_paragraph_def)
qed

section \<open>Properties of the description extraction\<close>

lemma match_here_single:
  "match_items items st (m @ rest) NotOpened = Some (Captured g, rest) \<Longrightarrow>
   match_here [items] st (m @ rest) = Some (m, Some g)"
  by (simp add: match_here_def)

lemma quotes_not_space: "\<not> is_space dquote" "\<not> is_space squote"
  by (simp_all add: is_space_def)

text \<open>The quoted rule, where the text \<^verbatim>\<open>description:\<close> stands.\<close>

lemma quoted_rule_here:
  assumes "\<forall>c \<in> set ws. is_space c"
    and "q1 = dquote \<or> q1 = squote" and "q2 = dquote \<or> q2 = squote"
    and "v \<noteq> []" and "dquote \<notin> set v" and "squote \<notin> set v"
  shows "match_here (DESCRIPTION_PATTERNS ! 0) st (''description:'' @ ws @ q1 # v @ q2 # post) =
         Some (''description:'' @ ws @ q1 # v @ [q2], Some v)"
proof -
  let ?Q = "OneOf [dquote, squote]" and ?NQ = "NoneOf [dquote, squote]"
  have close: "match_items [GroupClose, One ?Q] False (q2 # post) (Opened (v @ q2 # post)) =
      Some (Captured v, post)"
    using assms(3) by auto
  have inner: "match_items [Plus ?NQ, GroupClose, One ?Q] False (v @ q2 # post)
      (Opened (v @ q2 # post)) = Some (Captured v, post)"
    using assms close by (intro plus_all) auto
  have tail: "match_items [One ?Q, GroupOpen, Plus ?NQ, GroupClose, One ?Q] False
      (q1 # v @ q2 # post) NotOpened = Some (Captured v, post)"
    using assms(2) inner by auto
  have "match_items [Star Space, One ?Q, GroupOpen, Plus ?NQ, GroupClose, One ?Q] False
      (ws @ q1 # v @ q2 # post) NotOpened = Some (Captured v, post)"
  proof (rule star_all)
    show "\<forall>x \<in> set ws. in_cset Space x" using assms(1) by simp
    show "q1 # v @ q2 # post = [] \<or> \<not> in_cset Space (hd (q1 # v @ q2 # post))"
      using assms(2) quotes_not_space by auto
    show "match_items [One ?Q, GroupOpen, Plus ?NQ, GroupClose, One ?Q] (False \<and> ws = [])
      (q1 # v @ q2 # post) NotOpened = Some (Captured v, post)"
      using tail by simp
  qed
  then have "match_items (lit ''description:'' @
        [Star Space, One ?Q, GroupOpen, Plus ?NQ, GroupClose, One ?Q]) st
      (''description:'' @ ws @ q1 # v @ q2 # post) NotOpened = Some (Captured v, post)"
    unfolding lit_match by simp
  then have "match_here [lit ''description:'' @
        [Star Space, One ?Q, GroupOpen, Plus ?NQ, GroupClose, One ?Q]] st
      ((''description:'' @ ws @ q1 # v @ [q2]) @ post) =
      Some (''description:'' @ ws @ q1 # v @ [q2], Some v)"
    by (intro match_here_single) simp
  then show ?thesis by (simp add: DESCRIPTION_PATTERNS_def)
qed

lemma quoted_rule:
  assumes "first_at ''description:'' (pre @ ''description:'' @ ws @ q1 # v @ q2 # post) (length pre)"
    and "\<forall>c \<in> set ws. is_space c"
    and "q1 = dquote \<or> q1 = squote" and "q2 = dquote \<or> q2 = squote"
    and "v \<noteq> []" and "dquote \<notin> set v" and "squote \<notin> set v"
  shows "js_match (pre @ ''description:'' @ ws @ q1 # v @ q2 # post) (DESCRIPTION_PATTERNS ! 0) =
         Some (''description:'' @ ws @ q1 # v @ [q2], Some v)"
proof -
  let ?s = "''description:'' @ ws @ q1 # v @ q2 # post"
  have "\<forall>i < length pre. match_here (DESCRIPTION_PATTERNS ! 0) (True \<and> i = 0) (drop i (pre @ ?s)) = None"
    using assms(1) by (simp add: first_at_iff DESCRIPTION_PATTERNS_def match_here_lit_mismatch)
  then have "search (DESCRIPTION_PATTERNS ! 0) True (pre @ ?s) =
      search (DESCRIPTION_PATTERNS ! 0) (True \<and> pre = []) ?s"
    by (rule search_skip)
  also have "\<dots> = Some (''description:'' @ ws @ q1 # v @ [q2], Some v)"
    by (intro search_found quoted_rule_here assms)
  finally show ?thesis by (simp add: js_match_def)
qed


lemma occurs_longer: "prefix a b \<Longrightarrow> occurs b s \<Longrightarrow> occurs a s"
  unfolding occurs_iff using prefix_order.trans by blast

lemma no_description_field:
  assumes "\<not> occurs ''description'' fm"
  shows "first_description DESCRIPTION_PATTERNS fm = None"
proof -
  have "\<not> occurs ''description:'' fm"
    using assms occurs_longer [of "''description''" "''description:''" fm] by auto
  then show ?thesis
    using assms
    by (simp add: DESCRIPTION_PATTERNS_def js_match_def search_lit_absent)
qed

lemma prefix_of_long_append:
  "length p \<le> length a \<Longrightarrow> prefix p (a @ b) = prefix p a"
  by (auto simp: prefix_append)


text \<open>The first-paragraph rule on a document that opens with a frontmatter block.\<close>

lemma first_paragraph_rule:
  assumes "first_at ''\<newline>---\<newline>\<newline>'' (fm @ ''\<newline>---\<newline>\<newline>'') (length fm)"
    and "line \<noteq> []" and "CHR ''\<newline>'' \<notin> set line"
    and "rest = [] \<or> hd rest = CHR ''\<newline>''"
  shows "js_match (''---\<newline>'' @ fm @ ''\<newline>---\<newline>\<newline>'' @ line @ rest) FIRST_PARAGRAPH_REGEX =
         Some (''---\<newline>'' @ fm @ ''\<newline>---\<newline>\<newline>'' @ line, Some line)"
proof -
  let ?sep = "''\<newline>---\<newline>\<newline>''"
  let ?NNL = "NoneOf ''\<newline>''"
  let ?G = "[GroupOpen, Plus ?NNL, GroupClose]"
  let ?C = "lit ?sep @ ?G"
  have "match_items [Plus ?NNL, GroupClose] False (line @ rest) (Opened (line @ rest)) =
      Some (Captured line, rest)"
    using assms(2-4) by (intro plus_all) auto
  then have grp: "match_items ?G False (line @ rest) NotOpened = Some (Captured line, rest)"
    by simp
  have cont: "match_items ?C False (?sep @ line @ rest) NotOpened = Some (Captured line, rest)"
    unfolding lit_match using grp by simp
  have skip: "\<forall>i < length fm.
      match_items ?C (False \<and> i = 0) (drop i (fm @ ?sep @ line @ rest)) NotOpened = None"
  proof (intro allI impI)
    fix i assume i: "i < length fm"
    then have "\<not> prefix ?sep (drop i fm @ ?sep)"
      using assms(1) by (simp add: first_at_iff)
    moreover have "prefix ?sep ((drop i fm @ ?sep) @ line @ rest) = prefix ?sep (drop i fm @ ?sep)"
      by (rule prefix_of_long_append) simp
    ultimately have "\<not> prefix ?sep (drop i (fm @ ?sep @ line @ rest))"
      using i by simp
    then show "match_items ?C (False \<and> i = 0) (drop i (fm @ ?sep @ line @ rest)) NotOpened = None"
      by (rule lit_mismatch)
  qed
  have "match_items (LazyStar AnyChar # ?C) False (fm @ ?sep @ line @ rest) NotOpened =
      match_items (LazyStar AnyChar # ?C) (False \<and> fm = []) (?sep @ line @ rest) NotOpened"
    using skip by (rule lazy_skip)
  also have "\<dots> = Some (Captured line, rest)"
    using cont by (intro lazy_found) simp
  finally have "match_items (lit ''---\<newline>'' @ LazyStar AnyChar # ?C) True
      (''---\<newline>'' @ fm @ ?sep @ line @ rest) NotOpened = Some (Captured line, rest)"
    unfolding lit_match by simp
  then have "match_here [lit ''---\<newline>'' @ LazyStar AnyChar # ?C] True
      ((''---\<newline>'' @ fm @ ?sep @ line) @ rest) =
      Some (''---\<newline>'' @ fm @ ?sep @ line, Some line)"
    by (intro match_here_single) simp
  then have "search FIRST_PARAGRAPH_REGEX True (''---\<newline>'' @ fm @ ?sep @ line @ rest) =
      Some (''---\<newline>'' @ fm @ ?sep @ line, Some line)"
    by (intro search_found) (simp add: FIRST_PARAGRAPH_REGEX_def)
  then show ?thesis by (simp add: js_match_def)
qed

lemma first_paragraph_absent:
  assumes "\<not> occurs ''\<newline>---\<newline>\<newline>'' mdx"
  shows "js_match mdx FIRST_PARAGRAPH_REGEX = None"
proof -
  let ?sep = "''\<newline>---\<newline>\<newline>''"
  let ?C = "lit ?sep @ [GroupOpen, Plus (NoneOf ''\<newline>''), GroupClose]"
  have none: "match_items (lit ''---\<newline>'' @ LazyStar AnyChar # ?C) st (drop j mdx) NotOpened = None"
    if j: "j \<le> length mdx" for j st
  proof (cases "prefix ''---\<newline>'' (drop j mdx)")
    case False
    then show ?thesis by (rule lit_mismatch)
  next
    case True
    then obtain u where u: "drop j mdx = ''---\<newline>'' @ u"
      by (auto simp: prefix_def)
    have "\<forall>i \<le> length u. match_items ?C (False \<and> i = 0) (drop i u) NotOpened = None"
    proof (intro allI impI)
      fix i assume i: "i \<le> length u"
      have u4: "u = drop 4 (drop j mdx)"
        unfolding u by simp
      have eq: "drop i u = drop (i + 4 + j) mdx"
        unfolding u4 by (simp add: add.assoc)
      have "length (drop j mdx) = 4 + length u"
        unfolding u by simp
      then have "i + 4 + j \<le> length mdx" using i by simp
      then have "\<not> prefix ?sep (drop i u)"
        using assms eq unfolding occurs_iff by metis
      then show "match_items ?C (False \<and> i = 0) (drop i u) NotOpened = None"
        by (rule lit_mismatch)
    qed
    then have "match_items (LazyStar AnyChar # ?C) False u NotOpened = None"
      by (rule lazy_none)
    then show ?thesis unfolding u lit_match by simp
  qed
  have "search FIRST_PARAGRAPH_REGEX True mdx = None"
  proof (rule search_none, intro allI impI)
    fix j assume "j \<le> length mdx"
    then show "match_here FIRST_PARAGRAPH_REGEX (True \<and> j = 0) (drop j mdx) = None"
      using none [of j] by (simp add: match_here_def FIRST_PARAGRAPH_REGEX_def)
  qed
  then show ?thesis by (simp add: js_match_def)
qed


text \<open>
  Claim C3, as stated: when no description pattern matches, the description is the
  trimmed first non-blank line of the body text that follows the frontmatter block. In a
  document whose body starts on the line after the closing \<^verbatim>\<open>---\<close>, with no empty
  line in between, that line is \<^verbatim>\<open>A simple button.\<close>, and the extracted description
  is empty.
\<close>

theorem body_line_without_empty_line:
  "js_match no_blank_doc FRONTMATTER_REGEX =
     Some (''---\<newline>title: Button\<newline>---'', Some ''title: Button'')
   \<and> spec_first_body_line no_blank_doc = ''A simple button.''
   \<and> extractDescription ''title: Button'' no_blank_doc = []
   \<and> description (hd (transformComponentData ''button'' no_blank_doc)) = Some []"
  by code_simp

text \<open>
  Claim C3, amended: description extraction tries the three frontmatter rules in their
  declared order, each at every index of the frontmatter from the left - (a)
  \<^verbatim>\<open>description:\<close>, white space and a value between quotes, (b) \<^verbatim>\<open>description:\<close>,
  white space (line breaks included) and the run of characters up to the next line break,
  (c) \<^verbatim>\<open>description\<close>, white space, a colon, white space and a value between quotes -
  and the trimmed find of the first rule that finds something is the description; when
  none does, the description is the trimmed line that the first-paragraph rule finds in
  the document, and the empty string when that rule finds nothing either. In shapes:
  where the frontmatter's first \<^verbatim>\<open>description:\<close> is followed by white space and a
  value between quotes, rule (a) gives that value, so that
  \<^verbatim>\<open>description: "Accessible dialog."\<close> yields exactly \<^verbatim>\<open>Accessible dialog.\<close>;
  where the frontmatter's only \<^verbatim>\<open>description:\<close> is followed by white space and a
  line that does not start with a quote, rule (b) gives that line, whatever rule (c) would
  find before it; where the frontmatter has no \<^verbatim>\<open>description:\<close> and its first
  \<^verbatim>\<open>description\<close> is followed by white space, a colon, white space and a value
  between quotes, rule (c) gives that value. Where the frontmatter does not hold the word
  \<^verbatim>\<open>description\<close> and the document opens with \<^verbatim>\<open>---\<close>, the first-paragraph
  rule gives the line that stands after the first \<^verbatim>\<open>---\<close> line that is followed by
  exactly one empty line; a document in which no \<^verbatim>\<open>---\<close> line is followed by an
  empty line, or in which each such empty line is followed by a further line break or by
  the end of the document, gets the empty description.
\<close>

theorem extractDescription_rules:
  "length DESCRIPTION_PATTERNS = 3
   \<and> extractDescription fm mdx =
       (case leftmost quoted_field fm of
          Some d \<Rightarrow> trim d
        | None \<Rightarrow>
            (case leftmost unquoted_field fm of
               Some d \<Rightarrow> trim d
             | None \<Rightarrow>
                 (case leftmost spaced_field fm of
                    Some d \<Rightarrow> trim d
                  | None \<Rightarrow>
                      (case leftmost opening_paragraph mdx of
                         Some l \<Rightarrow> trim l
                       | None \<Rightarrow> []))))
   \<and> (first_at ''description:'' (pre @ ''description:'' @ ws @ q1 # v @ q2 # post) (length pre)
        \<and> (\<forall>c \<in> set ws. is_space c) \<and> (q1 = dquote \<or> q1 = squote)
        \<and> (q2 = dquote \<or> q2 = squote) \<and> v \<noteq> [] \<and> dquote \<notin> set v \<and> squote \<notin> set v \<longrightarrow>
        extractDescription (pre @ ''description:'' @ ws @ q1 # v @ q2 # post) mdx = trim v)
   \<and> (first_at ''description:''
          (pre @ ''description: '' @ dquote # ''Accessible dialog.'' @ dquote # post) (length pre) \<longrightarrow>
        extractDescription
          (pre @ ''description: '' @ dquote # ''Accessible dialog.'' @ dquote # post) mdx =
        ''Accessible dialog.'')
   \<and> (only_at ''description:'' (pb @ ''description:'' @ wb @ vb @ tb) (length pb)
        \<and> (\<forall>c \<in> set wb. is_space c) \<and> vb \<noteq> [] \<and> \<not> is_space (hd vb) \<and> \<not> is_quote (hd vb)
        \<and> CHR ''\<newline>'' \<notin> set vb \<and> (tb = [] \<or> hd tb = CHR ''\<newline>'') \<longrightarrow>
        extractDescription (pb @ ''description:'' @ wb @ vb @ tb) mdx = trim vb)
   \<and> (\<not> occurs ''description:'' (pc @ ''description'' @ wc @ CHR '':'' # wd @ qc # vc @ qd # tc)
        \<and> first_at ''description'' (pc @ ''description'' @ wc @ CHR '':'' # wd @ qc # vc @ qd # tc)
             (length pc)
        \<and> (\<forall>c \<in> set wc. is_space c) \<and> (\<forall>c \<in> set wd. is_space c) \<and> is_quote qc \<and> is_quote qd
        \<and> vc \<noteq> [] \<and> (\<forall>c \<in> set vc. \<not> is_quote c) \<longrightarrow>
        extractDescription (pc @ ''description'' @ wc @ CHR '':'' # wd @ qc # vc @ qd # tc) mdx =
        trim vc)
   \<and> (\<not> occurs ''description'' fm
        \<and> first_at ''\<newline>---\<newline>\<newline>'' (inside @ ''\<newline>---\<newline>\<newline>'') (length inside)
        \<and> line \<noteq> [] \<and> CHR ''\<newline>'' \<notin> set line \<and> (rest = [] \<or> hd rest = CHR ''\<newline>'') \<longrightarrow>
        extractDescription fm (''---\<newline>'' @ inside @ ''\<newline>---\<newline>\<newline>'' @ line @ rest) = trim line)
   \<and> (\<not> occurs ''description'' fm \<and> \<not> occurs ''\<newline>---\<newline>\<newline>'' mdx \<longrightarrow>
        extractDescription fm mdx = [])
   \<and> (\<not> occurs ''description'' fm \<and> no_line_after ''\<newline>---\<newline>\<newline>'' mdx \<longrightarrow>
        extractDescription fm mdx = [])"
proof (intro conjI impI)
  show "length DESCRIPTION_PATTERNS = 3"
    by (simp add: DESCRIPTION_PATTERNS_def)
  have three: "DESCRIPTION_PATTERNS =
      [DESCRIPTION_PATTERNS ! 0, DESCRIPTION_PATTERNS ! 1, DESCRIPTION_PATTERNS ! 2]"
    by (simp add: DESCRIPTION_PATTERNS_def)
  show "extractDescription fm mdx =
       (case leftmost quoted_field fm of
          Some d \<Rightarrow> trim d
        | None \<Rightarrow>
            (case leftmost unquoted_field fm of
               Some d \<Rightarrow> trim d
             | None \<Rightarrow>
                 (case leftmost spaced_field fm of
                    Some d \<Rightarrow> trim d
                  | None \<Rightarrow>
                      (case leftmost opening_paragraph mdx of
                         Some l \<Rightarrow> trim l
                       | None \<Rightarrow> []))))"
    by (rule extractDescription_direct)
  have first_wins: "extractDescription f mdx = trim g"
    if "js_match f (DESCRIPTION_PATTERNS ! 0) = Some (whole, Some g)" for f whole g
    unfolding extractDescription_def using that by (subst three) simp
  have quoted: "extractDescription (pre @ ''description:'' @ ws @ q1 # v @ q2 # post) mdx = trim v"
    if "first_at ''description:'' (pre @ ''description:'' @ ws @ q1 # v @ q2 # post) (length pre)"
      "\<forall>c \<in> set ws. is_space c" "q1 = dquote \<or> q1 = squote" "q2 = dquote \<or> q2 = squote"
      "v \<noteq> []" "dquote \<notin> set v" "squote \<notin> set v"
    for pre ws q1 v q2 post
    by (rule first_wins) (rule quoted_rule [OF that])
  show "extractDescription (pre @ ''description:'' @ ws @ q1 # v @ q2 # post) mdx = trim v"
    if "first_at ''description:'' (pre @ ''description:'' @ ws @ q1 # v @ q2 # post) (length pre)
        \<and> (\<forall>c \<in> set ws. is_space c) \<and> (q1 = dquote \<or> q1 = squote)
        \<and> (q2 = dquote \<or> q2 = squote) \<and> v \<noteq> [] \<and> dquote \<notin> set v \<and> squote \<notin> set v"
    using that quoted by blast
  show "extractDescription
          (pre @ ''description: '' @ dquote # ''Accessible dialog.'' @ dquote # post) mdx =
        ''Accessible dialog.''"
    if "first_at ''description:''
          (pre @ ''description: '' @ dquote # ''Accessible dialog.'' @ dquote # post) (length pre)"
  proof -
    have "trim ''Accessible dialog.'' = ''Accessible dialog.''"
      by code_simp
    then show ?thesis
      using quoted [of pre "'' ''" dquote "''Accessible dialog.''" dquote post] that
      by (simp add: is_space_def)
  qed
  show "extractDescription (pb @ ''description:'' @ wb @ vb @ tb) mdx = trim vb"
    if "only_at ''description:'' (pb @ ''description:'' @ wb @ vb @ tb) (length pb)
        \<and> (\<forall>c \<in> set wb. is_space c) \<and> vb \<noteq> [] \<and> \<not> is_space (hd vb) \<and> \<not> is_quote (hd vb)
        \<and> CHR ''\<newline>'' \<notin> set vb \<and> (tb = [] \<or> hd tb = CHR ''\<newline>'')"
  proof -
    have h: "only_at ''description:'' (pb @ ''description:'' @ wb @ vb @ tb) (length pb)"
      "\<forall>c \<in> set wb. is_space c" "vb \<noteq> []" "\<not> is_space (hd vb)" "\<not> is_quote (hd vb)"
      "CHR ''\<newline>'' \<notin> set vb" "tb = [] \<or> hd tb = CHR ''\<newline>''"
      using that by blast+
    have "leftmost quoted_field (pb @ ''description:'' @ wb @ vb @ tb) = None"
      and "leftmost unquoted_field (pb @ ''description:'' @ wb @ vb @ tb) = Some vb"
      by (rule unquoted_rule [OF h])+
    then show ?thesis
      by (simp only: extractDescription_direct option.case)
  qed
  show "extractDescription (pc @ ''description'' @ wc @ CHR '':'' # wd @ qc # vc @ qd # tc) mdx =
        trim vc"
    if "\<not> occurs ''description:'' (pc @ ''description'' @ wc @ CHR '':'' # wd @ qc # vc @ qd # tc)
        \<and> first_at ''description'' (pc @ ''description'' @ wc @ CHR '':'' # wd @ qc # vc @ qd # tc)
             (length pc)
        \<and> (\<forall>c \<in> set wc. is_space c) \<and> (\<forall>c \<in> set wd. is_space c) \<and> is_quote qc \<and> is_quote qd
        \<and> vc \<noteq> [] \<and> (\<forall>c \<in> set vc. \<not> is_quote c)"
  proof -
    have h: "\<not> occurs ''description:'' (pc @ ''description'' @ wc @ CHR '':'' # wd @ qc # vc @ qd # tc)"
      "first_at ''description'' (pc @ ''description'' @ wc @ CHR '':'' # wd @ qc # vc @ qd # tc)
         (length pc)"
      "\<forall>c \<in> set wc. is_space c" "\<forall>c \<in> set wd. is_space c" "is_quote qc" "is_quote qd"
      "vc \<noteq> []" "\<forall>c \<in> set vc. \<not> is_quote c"
      using that by blast+
    have "leftmost quoted_field (pc @ ''description'' @ wc @ CHR '':'' # wd @ qc # vc @ qd # tc) = None"
      and "leftmost unquoted_field (pc @ ''description'' @ wc @ CHR '':'' # wd @ qc # vc @ qd # tc) = None"
      and "leftmost spaced_field (pc @ ''description'' @ wc @ CHR '':'' # wd @ qc # vc @ qd # tc) =
           Some vc"
      by (rule spaced_rule [OF h])+
    then show ?thesis
      by (simp only: extractDescription_direct option.case)
  qed
  show "extractDescription fm (''---\<newline>'' @ inside @ ''\<newline>---\<newline>\<newline>'' @ line @ rest) = trim line"
    if "\<not> occurs ''description'' fm
        \<and> first_at ''\<newline>---\<newline>\<newline>'' (inside @ ''\<newline>---\<newline>\<newline>'') (length inside)
        \<and> line \<noteq> [] \<and> CHR ''\<newline>'' \<notin> set line \<and> (rest = [] \<or> hd rest = CHR ''\<newline>'')"
  proof -
    have "first_description DESCRIPTION_PATTERNS fm = None"
      using that by (simp add: no_description_field)
    moreover have "js_match (''---\<newline>'' @ inside @ ''\<newline>---\<newline>\<newline>'' @ line @ rest)
        FIRST_PARAGRAPH_REGEX =
        Some (''---\<newline>'' @ inside @ ''\<newline>---\<newline>\<newline>'' @ line, Some line)"
      using that by (intro first_paragraph_rule) simp_all
    ultimately show ?thesis
      by (simp only: extractDescription_def option.case group1.simps)
  qed
  show "extractDescription fm mdx = []"
    if "\<not> occurs ''description'' fm \<and> \<not> occurs ''\<newline>---\<newline>\<newline>'' mdx"
    using that
    by (simp add: extractDescription_def no_description_field first_paragraph_absent)
  show "extractDescription fm mdx = []"
    if "\<not> occurs ''description'' fm \<and> no_line_after ''\<newline>---\<newline>\<newline>'' mdx"
  proof -
    have "first_description DESCRIPTION_PATTERNS fm = None"
      using that by (simp add: no_description_field)
    moreover have "js_match mdx FIRST_PARAGRAPH_REGEX = None"
      using js_match_opening_paragraph [of mdx] no_paragraph [of mdx] that by simp
    ultimately show ?thesis
      by (simp only: extractDescription_def option.case)
  qed
qed

theorem extractDescription_rules_witness:
  "first_at ''description:''
      (''title: Dialog\<newline>'' @ ''description: '' @ dquote # ''Accessible dialog.'' @ dquote
         # ''\<newline>component: true'') (length ''title: Dialog\<newline>'')
   \<and> extractDescription
      (''title: Dialog\<newline>'' @ ''description: '' @ dquote # ''Accessible dialog.'' @ dquote
         # ''\<newline>component: true'') [] = ''Accessible dialog.''
   \<and> only_at ''description:''
        ((''description : '' @ [squote] @ ''x'' @ [squote] @ ''\<newline>'') @ ''description:'' @ '' '' @ ''y''
           @ ''\<newline>title: t'')
        (length (''description : '' @ [squote] @ ''x'' @ [squote] @ ''\<newline>''))
   \<and> extractDescription
        ((''description : '' @ [squote] @ ''x'' @ [squote] @ ''\<newline>'') @ ''description:'' @ '' '' @ ''y''
           @ ''\<newline>title: t'') [] = ''y''
   \<and> \<not> occurs ''description:''
        (''title: t\<newline>'' @ ''description'' @ '' '' @ CHR '':'' # '' '' @ squote # ''x'' @ squote # [])
   \<and> first_at ''description''
        (''title: t\<newline>'' @ ''description'' @ '' '' @ CHR '':'' # '' '' @ squote # ''x'' @ squote # [])
        (length ''title: t\<newline>'')
   \<and> extractDescription
        (''title: t\<newline>'' @ ''description'' @ '' '' @ CHR '':'' # '' '' @ squote # ''x'' @ squote # [])
        [] = ''x''
   \<and> \<not> occurs ''description'' ''title: Button''
   \<and> first_at ''\<newline>---\<newline>\<newline>'' (''title: Button'' @ ''\<newline>---\<newline>\<newline>'') (length ''title: Button'')
   \<and> extractDescription ''title: Button''
        (''---\<newline>'' @ ''title: Button'' @ ''\<newline>---\<newline>\<newline>'' @ ''A simple button. '' @ ''\<newline>More'') =
       ''A simple button.''
   \<and> \<not> occurs ''\<newline>---\<newline>\<newline>'' no_blank_doc
   \<and> extractDescription ''title: Button'' no_blank_doc = []
   \<and> occurs ''\<newline>---\<newline>\<newline>'' two_blank_doc
   \<and> no_line_after ''\<newline>---\<newline>\<newline>'' two_blank_doc
   \<and> extractDescription ''title: Button'' two_blank_doc = []"
proof -
  have a: "first_at ''description:''
      (''title: Dialog\<newline>'' @ ''description: '' @ dquote # ''Accessible dialog.'' @ dquote
         # ''\<newline>component: true'') (length ''title: Dialog\<newline>'')"
    by code_simp
  have b: "\<not> occurs ''description'' ''title: Button''"
    by code_simp
  have c: "first_at ''\<newline>---\<newline>\<newline>'' (''title: Button'' @ ''\<newline>---\<newline>\<newline>'') (length ''title: Button'')"
    by code_simp
  have d: "\<not> occurs ''\<newline>---\<newline>\<newline>'' no_blank_doc"
    by code_simp
  have e: "trim ''A simple button. '' = ''A simple button.''" "trim ''y'' = ''y''" "trim ''x'' = ''x''"
    by code_simp+
  have g: "''A simple button. '' \<noteq> [] \<and> CHR ''\<newline>'' \<notin> set ''A simple button. ''
      \<and> (''\<newline>More'' = [] \<or> hd ''\<newline>More'' = CHR ''\<newline>'')"
    by simp
  have h: "only_at ''description:''
        ((''description : '' @ [squote] @ ''x'' @ [squote] @ ''\<newline>'') @ ''description:'' @ '' '' @ ''y''
           @ ''\<newline>title: t'')
        (length (''description : '' @ [squote] @ ''x'' @ [squote] @ ''\<newline>''))"
    by code_simp
  have h': "(\<forall>c \<in> set '' ''. is_space c) \<and> ''y'' \<noteq> [] \<and> \<not> is_space (hd ''y'') \<and> \<not> is_quote (hd ''y'')
      \<and> CHR ''\<newline>'' \<notin> set ''y'' \<and> (''\<newline>title: t'' = [] \<or> hd ''\<newline>title: t'' = CHR ''\<newline>'')"
    by (simp add: is_space_def is_quote_def)
  have i: "\<not> occurs ''description:''
        (''title: t\<newline>'' @ ''description'' @ '' '' @ CHR '':'' # '' '' @ squote # ''x'' @ squote # [])"
    by code_simp
  have j: "first_at ''description''
        (''title: t\<newline>'' @ ''description'' @ '' '' @ CHR '':'' # '' '' @ squote # ''x'' @ squote # [])
        (length ''title: t\<newline>'')"
    by code_simp
  have j': "(\<forall>c \<in> set '' ''. is_space c) \<and> is_quote squote \<and> ''x'' \<noteq> []
      \<and> (\<forall>c \<in> set ''x''. \<not> is_quote c)"
    by (simp add: is_space_def is_quote_def)
  have k: "occurs ''\<newline>---\<newline>\<newline>'' two_blank_doc" "no_line_after ''\<newline>---\<newline>\<newline>'' two_blank_doc"
    by code_simp+
  note rules = extractDescription_rules [where fm = "''title: Button''"
      and pre = "''title: Dialog\<newline>''" and post = "''\<newline>component: true''"
      and inside = "''title: Button''" and line = "''A simple button. ''" and rest = "''\<newline>More''"
      and pb = "''description : '' @ [squote] @ ''x'' @ [squote] @ ''\<newline>''" and wb = "'' ''"
      and vb = "''y''" and tb = "''\<newline>title: t''"
      and pc = "''title: t\<newline>''" and wc = "'' ''" and wd = "'' ''" and qc = squote and vc = "''x''"
      and qd = squote and tc = "[]"]
  have first: "extractDescription
      (''title: Dialog\<newline>'' @ ''description: '' @ dquote # ''Accessible dialog.'' @ dquote
         # ''\<newline>component: true'') [] = ''Accessible dialog.''"
    using rules [where mdx = "[]", THEN conjunct2, THEN conjunct2, THEN conjunct2, THEN conjunct1]
      a by blast
  have unquoted: "extractDescription
        ((''description : '' @ [squote] @ ''x'' @ [squote] @ ''\<newline>'') @ ''description:'' @ '' '' @ ''y''
           @ ''\<newline>title: t'') [] = trim ''y''"
    using rules [where mdx = "[]", THEN conjunct2, THEN conjunct2, THEN conjunct2, THEN conjunct2,
        THEN conjunct1] h h' by blast
  have spaced: "extractDescription
        (''title: t\<newline>'' @ ''description'' @ '' '' @ CHR '':'' # '' '' @ squote # ''x'' @ squote # [])
        [] = trim ''x''"
    using rules [where mdx = "[]", THEN conjunct2, THEN conjunct2, THEN conjunct2, THEN conjunct2,
        THEN conjunct2, THEN conjunct1] i j j' by blast
  have second: "extractDescription ''title: Button''
        (''---\<newline>'' @ ''title: Button'' @ ''\<newline>---\<newline>\<newline>'' @ ''A simple button. '' @ ''\<newline>More'') =
       trim ''A simple button. ''"
    using rules [where mdx = "[]", THEN conjunct2, THEN conjunct2, THEN conjunct2, THEN conjunct2,
        THEN conjunct2, THEN conjunct2, THEN conjunct1] b c g by blast
  have third: "extractDescription ''title: Button'' no_blank_doc = []"
    using rules [where mdx = no_blank_doc, THEN conjunct2, THEN conjunct2, THEN conjunct2,
        THEN conjunct2, THEN conjunct2, THEN conjunct2, THEN conjunct2, THEN conjunct1] b d by blast
  have fourth: "extractDescription ''title: Button'' two_blank_doc = []"
    using rules [where mdx = two_blank_doc, THEN conjunct2, THEN conjunct2, THEN conjunct2,
        THEN conjunct2, THEN conjunct2, THEN conjunct2, THEN conjunct2, THEN conjunct2] b k by blast
  show ?thesis
    using a b c d h i j k first unquoted spaced second third fourth
    unfolding e by blast
qed

end
